theory Spec2Isabelle
  imports Main
begin

section \<open>The mod cache reconciliation of \<open>build/index.ts\<close>\<close>

text \<open>
  This theory embeds \<open>DownloadModsTarget\<close> (\<open>build/index.ts\<close>, lines 153 to 233):
  the target reads \<open>manifest.json\<close>, compares it with the record \<open>dist/cache.json\<close>
  left by the previous run, deletes the cached files of mods that were dropped or whose
  file id changed, downloads what is new, and writes the record back.

  Project ids and file ids are natural numbers, as in a CurseForge manifest. The objects
  \<open>oldData\<close>, \<open>newData\<close> and \<open>dataKeys\<close> are keyed by the decimal string of a
  project id; for such keys JavaScript enumerates an object in ascending numeric order,
  whatever the insertion order was. JavaScript does so for the ids below \<open>2^32 - 1\<close>
  (its array indices); a larger id would be enumerated after them, in insertion order,
  which bears on the order of the lists computed below and not on their elements.
\<close>

subsection \<open>Objects keyed by project id\<close>

text \<open>
  An object is a list of key and value pairs. \<open>obj_get ob k\<close> is the read \<open>ob[k]\<close>
  (\<open>None\<close> for \<open>undefined\<close>), \<open>obj_set k v ob\<close> the assignment \<open>ob[k] = v\<close>,
  \<open>obj_delete k ob\<close> the statement \<open>delete ob[k]\<close>, and \<open>Object_keys ob\<close> the array
  \<open>Object.keys(ob)\<close>: each key once, in ascending order. The first pair of a key is the
  one that counts, so every list is an object, also one that is not sorted.
\<close>

type_synonym 'v obj = "(nat \<times> 'v) list"

definition obj_get :: "'v obj \<Rightarrow> nat \<Rightarrow> 'v option" where
  "obj_get ob k = map_of ob k"

definition obj_delete :: "nat \<Rightarrow> 'v obj \<Rightarrow> 'v obj" where
  "obj_delete k ob = filter (\<lambda>p. fst p \<noteq> k) ob"

fun obj_set :: "nat \<Rightarrow> 'v \<Rightarrow> 'v obj \<Rightarrow> 'v obj" where
  "obj_set k v [] = [(k, v)]"
| "obj_set k v (p # ps) =
     (if fst p = k then (k, v) # ps
      else if k < fst p then (k, v) # p # ps
      else p # obj_set k v ps)"

definition Object_keys :: "'v obj \<Rightarrow> nat list" where
  "Object_keys ob = sort (remdups (map fst ob))"

subsection \<open>Data\<close>

text \<open>
  \<open>new_data\<close> is a value of \<open>newData\<close> (\<open>{ fileID, required }\<close>); \<open>old_data\<close> is a value
  of \<open>oldData\<close> and \<open>dataKeys\<close>, which may also carry \<open>file\<close>, the name of the cached
  file (\<open>None\<close> when the property is missing or \<open>undefined\<close>; \<open>JSON.stringify\<close> drops an
  \<open>undefined\<close> property, so both read back the same). A manifest entry has the two
  fields of \<open>new_data\<close> and \<open>projectID\<close>.
\<close>

record new_data =
  fileID :: nat
  required :: bool

record old_data = new_data +
  "file" :: "string option"

record manifest_entry = new_data +
  projectID :: nat

text \<open>
  A JSON file on disk: missing, present with text that \<open>JSON.parse\<close> rejects, or present
  with a value.
\<close>

datatype 'a json_file = Missing | Unparsable | Json 'a

text \<open>
  The part of the file system the target touches. \<open>modcache\<close> maps the name of each file
  in \<open>dist/modcache\<close> to its bytes. A manifest that parses is held as the list of its
  entries, each with the three fields of their types; what the target does with any other
  manifest is embedded separately, in the subsection on a manifest of any shape.
\<close>

record 'b world =
  manifest_json :: "manifest_entry list json_file"
  cache_json :: "old_data obj json_file"
  modcache :: "string \<rightharpoonup> 'b"

text \<open>
  The calls that change the file system or reach the network, in the order the target
  issues them. \<open>JukeRm\<close> and \<open>WriteFileSync\<close> carry the path, \<open>CallDownloadCF\<close> the mod
  id, the file id and the destination directory. Logging is left out.
\<close>

datatype action =
  MkdirSync string
| JukeRm string
| CallDownloadCF nat nat string
| WriteFileSync string "old_data obj"

text \<open>
  What the promise of \<open>executes\<close> can reject with: an exception thrown by the target's
  own code (a missing \<open>manifest.json\<close>, a \<open>JSON.parse\<close> failure, a property read on
  \<open>undefined\<close>), or whatever \<open>DownloadCF\<close> rejected with. The target has no \<open>try\<close>,
  so each of them ends the run.
\<close>

datatype js_error = ENOENT | SyntaxError | TypeError

datatype 'e failure = Thrown js_error | Rejected 'e

subsection \<open>The diff against the previous record (lines 168 to 212)\<close>

text \<open>
  \<open>dataKeys\<close> is the object the loops update: it is named \<open>oldData\<close> in the branch that
  found \<open>dist/cache.json\<close>, and line 212 binds \<open>dataKeys\<close> to it. \<open>removed\<close> lists the
  calls of \<open>Juke.rm\<close> made so far, each as the loop variable \<open>pid\<close> and the file name
  spliced into the path.
\<close>

record diff_state =
  dataKeys :: "old_data obj"
  mIdToDownload :: "nat list"
  removed :: "(nat \<times> string) list"

text \<open>The file name as the template literal of lines 184 and 202 splices it.\<close>

definition template :: "string option \<Rightarrow> string" where
  "template f = (case f of None \<Rightarrow> ''undefined'' | Some s \<Rightarrow> s)"

text \<open>The object \<open>newData\<close> built from \<open>manifest.files\<close> (lines 168 to 173).\<close>

definition newData_of :: "manifest_entry list \<Rightarrow> new_data obj" where
  "newData_of files =
     foldl (\<lambda>newData data.
              obj_set (projectID data) \<lparr>fileID = fileID data, required = required data\<rparr> newData)
       [] files"

text \<open>
  The record stored for a new or an updated mod: the copy \<open>{...newData[pid]}\<close> of line
  192 and the literal of lines 205 to 209, which both have the manifest's \<open>fileID\<close> and
  \<open>required\<close> and no file name.
\<close>

definition copy_new :: "new_data \<Rightarrow> old_data" where
  "copy_new nd = \<lparr>fileID = fileID nd, required = required nd, file = None\<rparr>"

text \<open>The body of the first loop (lines 181 to 193).\<close>

definition removed_or_added :: "new_data obj \<Rightarrow> diff_state \<Rightarrow> nat \<Rightarrow> diff_state" where
  "removed_or_added newData d pid =
     (case obj_get (dataKeys d) pid of
        Some fromOldData \<Rightarrow>
          d\<lparr>removed := removed d @ [(pid, template (file fromOldData))],
            dataKeys := obj_delete pid (dataKeys d)\<rparr>
      | None \<Rightarrow>
          (case obj_get newData pid of
             Some nd \<Rightarrow>
               if pid \<notin> set (mIdToDownload d)
               then d\<lparr>mIdToDownload := mIdToDownload d @ [pid],
                      dataKeys := obj_set pid (copy_new nd) (dataKeys d)\<rparr>
               else d
           | None \<Rightarrow> d))"

text \<open>
  The filter of the second loop (lines 197 and 198), evaluated on the whole of
  \<open>oldDataKeys\<close> before the loop body runs. \<open>oldData[pid]["fileID"]\<close> throws when
  \<open>oldData[pid]\<close> is \<open>undefined\<close>.
\<close>

fun fileID_changed :: "new_data obj \<Rightarrow> old_data obj \<Rightarrow> nat list \<Rightarrow> js_error + nat list" where
  "fileID_changed newData oldData [] = Inr []"
| "fileID_changed newData oldData (pid # pids) =
     (case obj_get newData pid of
        None \<Rightarrow> fileID_changed newData oldData pids
      | Some nd \<Rightarrow>
          (case obj_get oldData pid of
             None \<Rightarrow> Inl TypeError
           | Some od \<Rightarrow>
               (case fileID_changed newData oldData pids of
                  Inl e \<Rightarrow> Inl e
                | Inr rest \<Rightarrow> Inr (if fileID od \<noteq> fileID nd then pid # rest else rest))))"

text \<open>
  The second loop (lines 199 to 210). When it throws, the state returned is the one at
  the throw: the file is removed and the id pushed before the object literal reads
  \<open>newData[pid]\<close>.
\<close>

definition push_new :: "nat \<Rightarrow> nat list \<Rightarrow> nat list" where
  "push_new pid ids = (if pid \<notin> set ids then ids @ [pid] else ids)"

fun updated :: "new_data obj \<Rightarrow> nat list \<Rightarrow> diff_state \<Rightarrow> (js_error \<times> diff_state) + diff_state" where
  "updated newData [] d = Inr d"
| "updated newData (pid # pids) d =
     (case obj_get (dataKeys d) pid of
        None \<Rightarrow> updated newData pids d
      | Some fromOldData \<Rightarrow>
          (let d' = d\<lparr>removed := removed d @ [(pid, template (file fromOldData))],
                      mIdToDownload := push_new pid (mIdToDownload d)\<rparr>
           in case obj_get newData pid of
                None \<Rightarrow> Inl (TypeError, d')
              | Some nd \<Rightarrow>
                  updated newData pids
                    (d'\<lparr>dataKeys := obj_set pid (copy_new nd) (dataKeys d')\<rparr>)))"

definition diff :: "manifest_entry list \<Rightarrow> old_data obj \<Rightarrow> (js_error \<times> diff_state) + diff_state" where
  "diff files oldData =
     (let newData = newData_of files;
          oldDataKeys = Object_keys oldData;
          newDataKeys = Object_keys newData;
          d1 = foldl (removed_or_added newData)
                 \<lparr>dataKeys = oldData, mIdToDownload = [], removed = []\<rparr>
                 (filter (\<lambda>pid. pid \<notin> set newDataKeys) oldDataKeys
                  @ filter (\<lambda>x. x \<notin> set oldDataKeys) newDataKeys)
      in case fileID_changed newData (dataKeys d1) oldDataKeys of
           Inl e \<Rightarrow> Inl (e, d1)
         | Inr pids \<Rightarrow> updated newData pids d1)"

subsection \<open>The first run (lines 214 to 220)\<close>

definition remap :: "manifest_entry list \<Rightarrow> diff_state" where
  "remap files =
     foldl (\<lambda>d data.
              d\<lparr>dataKeys := obj_set (projectID data)
                               \<lparr>fileID = fileID data, required = required data, file = None\<rparr>
                               (dataKeys d),
                mIdToDownload := mIdToDownload d @ [projectID data]\<rparr>)
       \<lparr>dataKeys = [], mIdToDownload = [], removed = []\<rparr> files"

subsection \<open>The download loop (lines 223 to 230)\<close>

text \<open>
  \<open>DownloadCF\<close> lives in \<open>lib/curseforge.ts\<close>. What it answers is a parameter of the
  model: a function of the mod id and the file id that either rejects with an error or
  returns the name and the bytes of the file it fetched. \<open>entries\<close> is \<open>dataKeys\<close>
  during the loop, \<open>dir\<close> the content of \<open>dist/modcache\<close>, \<open>trace\<close> the calls so far.
\<close>

text \<open>
  Modelled from the spec: the effect on the directory it is given of a call of
  \<open>DownloadCF\<close> that resolves (the function is in \<open>lib/curseforge.ts\<close>, which is not
  among the sources). "On success, write the returned bytes under the returned file name
  inside \<open>cacheDir\<close>": a file of that name is created or overwritten.
\<close>

definition DownloadCF_stores :: "string \<Rightarrow> 'b \<Rightarrow> (string \<rightharpoonup> 'b) \<Rightarrow> (string \<rightharpoonup> 'b)" where
  "DownloadCF_stores fileName bytes m = m(fileName \<mapsto> bytes)"

record 'b exec_state =
  entries :: "old_data obj"
  dir :: "string \<rightharpoonup> 'b"
  trace :: "action list"

fun download_loop ::
  "(nat \<Rightarrow> nat \<Rightarrow> 'e + string \<times> 'b) \<Rightarrow> nat list \<Rightarrow> 'b exec_state \<Rightarrow> ('e failure + unit) \<times> 'b exec_state"
where
  "download_loop DownloadCF [] s = (Inr (), s)"
| "download_loop DownloadCF (modID # rest) s =
     (case obj_get (entries s) modID of
        None \<Rightarrow> (Inl (Thrown TypeError), s)
      | Some data \<Rightarrow>
          (let s1 = s\<lparr>trace := trace s @ [CallDownloadCF modID (fileID data) ''dist/modcache/'']\<rparr>
           in case DownloadCF modID (fileID data) of
                Inl e \<Rightarrow> (Inl (Rejected e), s1)
              | Inr (fileName, bytes) \<Rightarrow>
                  download_loop DownloadCF rest
                    (s1\<lparr>dir := DownloadCF_stores fileName bytes (dir s1),
                        entries := obj_set modID (data\<lparr>file := Some fileName\<rparr>) (entries s1)\<rparr>)))"

subsection \<open>The target\<close>

text \<open>
  Modelled from the spec: the effect of \<open>Juke.rm\<close> (of the package \<open>juke-build\<close>) on
  the directory, for a path that names one file of it. "Delete the file from
  \<open>cacheDir\<close> if present; a missing file is not an error." The call is synchronous.
\<close>

definition Juke_rm :: "string \<Rightarrow> (string \<rightharpoonup> 'b) \<Rightarrow> (string \<rightharpoonup> 'b)" where
  "Juke_rm name m = m(name := None)"

text \<open>
  The two diff loops only read and write \<open>oldData\<close>, \<open>newData\<close> and \<open>mIdToDownload\<close>;
  they never read the directory. So the model lets them record each call of \<open>Juke.rm\<close>
  in \<open>removed\<close>, and applies the recorded calls to the directory and to the trace here,
  in the order they were issued and before the first download. \<open>plan\<close> is the choice
  between the two branches of line 164, \<open>after_diff\<close> the state in which the download
  loop starts. The calls of \<open>fs\<close> and of \<open>Juke.rm\<close> are taken to succeed: in
  particular \<open>writeFileSync\<close> returns with the record written, and nothing below is
  about a write that throws.
\<close>

definition rm_files :: "(nat \<times> string) list \<Rightarrow> (string \<rightharpoonup> 'b) \<Rightarrow> (string \<rightharpoonup> 'b)" where
  "rm_files rms m = foldl (\<lambda>m r. Juke_rm (snd r) m) m rms"

definition rm_actions :: "(nat \<times> string) list \<Rightarrow> action list" where
  "rm_actions rms = map (\<lambda>r. JukeRm (''dist/modcache/'' @ snd r)) rms"

definition after_diff :: "'b world \<Rightarrow> diff_state \<Rightarrow> 'b exec_state" where
  "after_diff w d =
     \<lparr>entries = dataKeys d,
      dir = rm_files (removed d) (modcache w),
      trace = MkdirSync ''dist/modcache'' # rm_actions (removed d)\<rparr>"

definition plan :: "manifest_entry list \<Rightarrow> old_data obj json_file \<Rightarrow> (js_error \<times> diff_state) + diff_state" where
  "plan files cache =
     (case cache of
        Missing \<Rightarrow> Inr (remap files)
      | Unparsable \<Rightarrow> Inl (SyntaxError, \<lparr>dataKeys = [], mIdToDownload = [], removed = []\<rparr>)
      | Json oldData \<Rightarrow> diff files oldData)"

definition DownloadModsTarget ::
  "(nat \<Rightarrow> nat \<Rightarrow> 'e + string \<times> 'b) \<Rightarrow> 'b world \<Rightarrow> ('e failure + unit) \<times> 'b world \<times> action list"
where
  "DownloadModsTarget DownloadCF w =
     (case manifest_json w of
        Missing \<Rightarrow> (Inl (Thrown ENOENT), w, [])
      | Unparsable \<Rightarrow> (Inl (Thrown SyntaxError), w, [])
      | Json files \<Rightarrow>
          (case plan files (cache_json w) of
             Inl (e, d) \<Rightarrow>
               (Inl (Thrown e), w\<lparr>modcache := dir (after_diff w d)\<rparr>, trace (after_diff w d))
           | Inr d \<Rightarrow>
               (case download_loop DownloadCF (mIdToDownload d) (after_diff w d) of
                  (Inl e, s) \<Rightarrow> (Inl e, w\<lparr>modcache := dir s\<rparr>, trace s)
                | (Inr u, s) \<Rightarrow>
                    (Inr (),
                     w\<lparr>modcache := dir s, cache_json := Json (entries s)\<rparr>,
                     trace s @ [WriteFileSync ''dist/cache.json'' (entries s)]))))"

subsection \<open>The target on a manifest of any shape\<close>

text \<open>
  The definitions above take every entry of \<open>manifest.files\<close> to be an object with a
  numeric \<open>projectID\<close>, a numeric \<open>fileID\<close> and a boolean \<open>required\<close>, which is the
  input the properties of the diff are about. The target checks none of this: between
  \<open>JSON.parse\<close> (line 157) and the loops there is no schema, so the same lines are
  embedded once more for whatever \<open>JSON.parse\<close> may return. The definitions of this
  subsection carry the suffix \<open>_any\<close> and follow the ones above line by line; they
  differ in the values and in the objects.

  A field holds a primitive value. \<open>JUndefined\<close> is also the field that is missing: a
  missing property reads as \<open>undefined\<close>, and \<open>JSON.stringify\<close> leaves out a property
  that is \<open>undefined\<close>. Numbers are the naturals a JavaScript number holds exactly
  (up to \<open>2^53\<close>), which a template literal prints in plain decimal; fields that hold
  objects or arrays are left out.
\<close>

datatype jsval = JUndefined | JNull | JBool bool | JNum nat | JStr string

primrec decimal_digits :: "nat \<Rightarrow> nat \<Rightarrow> string" where
  "decimal_digits 0 n = []"
| "decimal_digits (Suc k) n =
     (if n < 10 then [char_of (48 + n)]
      else decimal_digits k (n div 10) @ [char_of (48 + n mod 10)])"

definition decimal :: "nat \<Rightarrow> string" where
  "decimal n = decimal_digits 21 n"

text \<open>The string a template literal \<open>`${v}`\<close> gives for a primitive value.\<close>

definition template_literal :: "jsval \<Rightarrow> string" where
  "template_literal v =
     (case v of
        JUndefined \<Rightarrow> ''undefined''
      | JNull \<Rightarrow> ''null''
      | JBool b \<Rightarrow> (if b then ''true'' else ''false'')
      | JNum n \<Rightarrow> decimal n
      | JStr s \<Rightarrow> s)"

text \<open>
  An object is the list of its own properties in the order of their creation, each key
  once. \<open>prop_get ob k\<close> is the read \<open>ob[k]\<close>, \<open>prop_set k v ob\<close> the assignment
  \<open>ob[k] = v\<close> (an existing property keeps its place, a new one goes last),
  \<open>prop_delete k ob\<close> the statement \<open>delete ob[k]\<close>. \<open>own_keys ob\<close> is
  \<open>Object.keys(ob)\<close>: first the keys that are array indices (the decimal string,
  without leading zero, of a number below \<open>2^32 - 1\<close>) in ascending numeric order, then
  the other keys in the order of their creation. \<open>JSON_parse_object\<close> builds the object
  from the members of a JSON text (a repeated name keeps the last value) and
  \<open>JSON_stringify\<close> lists the members it writes. The properties an object inherits from
  \<open>Object.prototype\<close> are not modelled, so the keys \<open>__proto__\<close>, \<open>constructor\<close>,
  \<open>toString\<close> and the like are outside these definitions.
\<close>

definition digits_value :: "string \<Rightarrow> nat" where
  "digits_value s = foldl (\<lambda>n c. 10 * n + (of_char c - 48)) 0 s"

fun digits_less :: "string \<Rightarrow> string \<Rightarrow> bool" where
  "digits_less (c # cs) (d # ds) = ((of_char c :: nat) < of_char d \<or> c = d \<and> digits_less cs ds)"
| "digits_less cs ds = False"

definition array_index :: "string \<Rightarrow> nat option" where
  "array_index s =
     (if s \<noteq> [] \<and> list_all (\<lambda>c. 48 \<le> (of_char c :: nat) \<and> (of_char c :: nat) \<le> 57) s
         \<and> (s = ''0'' \<or> hd s \<noteq> CHR ''0'')
         \<and> (length s < 10 \<or> length s = 10 \<and> digits_less s ''4294967295'')
      then Some (digits_value s) else None)"

type_synonym 'v props = "(string \<times> 'v) list"

definition prop_get :: "'v props \<Rightarrow> string \<Rightarrow> 'v option" where
  "prop_get ob k = map_of ob k"

definition prop_set :: "string \<Rightarrow> 'v \<Rightarrow> 'v props \<Rightarrow> 'v props" where
  "prop_set k v ob =
     (if k \<in> fst ` set ob then map (\<lambda>p. if fst p = k then (k, v) else p) ob else ob @ [(k, v)])"

definition prop_delete :: "string \<Rightarrow> 'v props \<Rightarrow> 'v props" where
  "prop_delete k ob = filter (\<lambda>p. fst p \<noteq> k) ob"

definition own_keys :: "'v props \<Rightarrow> string list" where
  "own_keys ob =
     map snd (sort_key fst (List.map_filter (\<lambda>k. map_option (\<lambda>n. (n, k)) (array_index k)) (map fst ob)))
     @ filter (\<lambda>k. array_index k = None) (map fst ob)"

definition JSON_parse_object :: "(string \<times> 'v) list \<Rightarrow> 'v props" where
  "JSON_parse_object members = foldl (\<lambda>ob p. prop_set (fst p) (snd p) ob) [] members"

definition JSON_stringify :: "'v props \<Rightarrow> (string \<times> 'v) list" where
  "JSON_stringify ob = List.map_filter (\<lambda>k. map_option (Pair k) (prop_get ob k)) (own_keys ob)"

text \<open>
  \<open>any_new\<close> and \<open>any_old\<close> are \<open>new_data\<close> and \<open>old_data\<close> with fields of any primitive
  value. An element of \<open>manifest.files\<close> is \<open>null\<close>, on which the destructuring of
  lines 171 and 217 throws, or another value, of which the loops read the three fields
  (\<open>Fields projectID fileID required\<close>; all three are \<open>undefined\<close> for a number, a
  string or a boolean). The manifest is \<open>null\<close>, on which \<open>manifest.files\<close> throws, or
  another value: \<open>Files\<close> lists what \<open>for ... in manifest.files\<close> visits, in order,
  which is nothing when \<open>manifest.files\<close> is \<open>undefined\<close> or \<open>null\<close>. The record \<open>dist/cache.json\<close>
  is taken to be an object whose values are objects: \<open>cache_value\<close> holds the members of
  its JSON text.
\<close>

record any_new =
  fileID_val :: jsval
  required_val :: jsval

record any_old = any_new +
  file_val :: jsval

datatype any_entry = Null_entry | Fields jsval jsval jsval

datatype any_manifest = Null_manifest | Files "any_entry list"

record 'b world_any =
  manifest_value :: "any_manifest json_file"
  cache_value :: "(string \<times> any_old) list json_file"
  modcache_any :: "string \<rightharpoonup> 'b"

datatype action_any =
  MkdirSync_any string
| JukeRm_any string
| CallDownloadCF_any string jsval string
| WriteFileSync_any string "(string \<times> any_old) list"

text \<open>
  \<open>removed_any\<close> lists the file names spliced into the paths of the calls of \<open>Juke.rm\<close>
  made so far.
\<close>

record diff_state_any =
  dataKeys_any :: "any_old props"
  mIdToDownload_any :: "string list"
  removed_any :: "string list"

text \<open>
  The loop of lines 169 to 173, from the object \<open>newData\<close> built so far. It throws a
  \<open>TypeError\<close> at the first element that is \<open>null\<close>.
\<close>

fun newData_of_any :: "any_entry list \<Rightarrow> any_new props \<Rightarrow> js_error + any_new props" where
  "newData_of_any [] newData = Inr newData"
| "newData_of_any (Null_entry # rest) newData = Inl TypeError"
| "newData_of_any (Fields pid fid req # rest) newData =
     newData_of_any rest
       (prop_set (template_literal pid) \<lparr>fileID_val = fid, required_val = req\<rparr> newData)"

definition copy_new_any :: "any_new \<Rightarrow> any_old" where
  "copy_new_any nd = \<lparr>fileID_val = fileID_val nd, required_val = required_val nd, file_val = JUndefined\<rparr>"

text \<open>The body of the first loop (lines 181 to 193).\<close>

definition removed_or_added_any :: "any_new props \<Rightarrow> diff_state_any \<Rightarrow> string \<Rightarrow> diff_state_any" where
  "removed_or_added_any newData d pid =
     (case prop_get (dataKeys_any d) pid of
        Some fromOldData \<Rightarrow>
          d\<lparr>removed_any := removed_any d @ [template_literal (file_val fromOldData)],
            dataKeys_any := prop_delete pid (dataKeys_any d)\<rparr>
      | None \<Rightarrow>
          (case prop_get newData pid of
             Some nd \<Rightarrow>
               if pid \<notin> set (mIdToDownload_any d)
               then d\<lparr>mIdToDownload_any := mIdToDownload_any d @ [pid],
                      dataKeys_any := prop_set pid (copy_new_any nd) (dataKeys_any d)\<rparr>
               else d
           | None \<Rightarrow> d))"

text \<open>
  The filter of the second loop (lines 197 and 198); \<open>!==\<close> on two primitive values
  is their difference.
\<close>

fun fileID_changed_any :: "any_new props \<Rightarrow> any_old props \<Rightarrow> string list \<Rightarrow> js_error + string list" where
  "fileID_changed_any newData oldData [] = Inr []"
| "fileID_changed_any newData oldData (pid # pids) =
     (case prop_get newData pid of
        None \<Rightarrow> fileID_changed_any newData oldData pids
      | Some nd \<Rightarrow>
          (case prop_get oldData pid of
             None \<Rightarrow> Inl TypeError
           | Some od \<Rightarrow>
               (case fileID_changed_any newData oldData pids of
                  Inl e \<Rightarrow> Inl e
                | Inr rest \<Rightarrow> Inr (if fileID_val od \<noteq> fileID_val nd then pid # rest else rest))))"

definition push_new_any :: "string \<Rightarrow> string list \<Rightarrow> string list" where
  "push_new_any pid ids = (if pid \<notin> set ids then ids @ [pid] else ids)"

text \<open>The second loop (lines 199 to 210).\<close>

fun updated_any ::
  "any_new props \<Rightarrow> string list \<Rightarrow> diff_state_any \<Rightarrow> (js_error \<times> diff_state_any) + diff_state_any"
where
  "updated_any newData [] d = Inr d"
| "updated_any newData (pid # pids) d =
     (case prop_get (dataKeys_any d) pid of
        None \<Rightarrow> updated_any newData pids d
      | Some fromOldData \<Rightarrow>
          (let d' = d\<lparr>removed_any := removed_any d @ [template_literal (file_val fromOldData)],
                      mIdToDownload_any := push_new_any pid (mIdToDownload_any d)\<rparr>
           in case prop_get newData pid of
                None \<Rightarrow> Inl (TypeError, d')
              | Some nd \<Rightarrow>
                  updated_any newData pids
                    (d'\<lparr>dataKeys_any := prop_set pid (copy_new_any nd) (dataKeys_any d')\<rparr>)))"

definition diff_any :: "any_entry list \<Rightarrow> any_old props \<Rightarrow> (js_error \<times> diff_state_any) + diff_state_any" where
  "diff_any files oldData =
     (let d0 = \<lparr>dataKeys_any = oldData, mIdToDownload_any = [], removed_any = []\<rparr>
      in case newData_of_any files [] of
           Inl e \<Rightarrow> Inl (e, d0)
         | Inr newData \<Rightarrow>
             (let oldDataKeys = own_keys oldData;
                  newDataKeys = own_keys newData;
                  d1 = foldl (removed_or_added_any newData) d0
                         (filter (\<lambda>pid. pid \<notin> set newDataKeys) oldDataKeys
                          @ filter (\<lambda>x. x \<notin> set oldDataKeys) newDataKeys)
              in case fileID_changed_any newData (dataKeys_any d1) oldDataKeys of
                   Inl e \<Rightarrow> Inl (e, d1)
                 | Inr pids \<Rightarrow> updated_any newData pids d1))"

text \<open>
  The loop of the first run (lines 215 to 220), from the state reached so far. It throws
  a \<open>TypeError\<close> at the first element that is \<open>null\<close>.
\<close>

fun remap_any :: "any_entry list \<Rightarrow> diff_state_any \<Rightarrow> (js_error \<times> diff_state_any) + diff_state_any" where
  "remap_any [] d = Inr d"
| "remap_any (Null_entry # rest) d = Inl (TypeError, d)"
| "remap_any (Fields pid fid req # rest) d =
     remap_any rest
       (d\<lparr>dataKeys_any := prop_set (template_literal pid)
                               \<lparr>fileID_val = fid, required_val = req, file_val = JUndefined\<rparr>
                               (dataKeys_any d),
          mIdToDownload_any := mIdToDownload_any d @ [template_literal pid]\<rparr>)"

text \<open>
  The download loop (lines 223 to 230). \<open>DownloadCF\<close> is given the key and the value of
  \<open>fileID\<close> as they are.
\<close>

record 'b exec_state_any =
  entries_any :: "any_old props"
  dir_any :: "string \<rightharpoonup> 'b"
  trace_any :: "action_any list"

fun download_loop_any ::
  "(string \<Rightarrow> jsval \<Rightarrow> 'e + string \<times> 'b) \<Rightarrow> string list \<Rightarrow> 'b exec_state_any
     \<Rightarrow> ('e failure + unit) \<times> 'b exec_state_any"
where
  "download_loop_any DownloadCF [] s = (Inr (), s)"
| "download_loop_any DownloadCF (modID # rest) s =
     (case prop_get (entries_any s) modID of
        None \<Rightarrow> (Inl (Thrown TypeError), s)
      | Some data \<Rightarrow>
          (let s1 = s\<lparr>trace_any := trace_any s @ [CallDownloadCF_any modID (fileID_val data) ''dist/modcache/'']\<rparr>
           in case DownloadCF modID (fileID_val data) of
                Inl e \<Rightarrow> (Inl (Rejected e), s1)
              | Inr (fileName, bytes) \<Rightarrow>
                  download_loop_any DownloadCF rest
                    (s1\<lparr>dir_any := DownloadCF_stores fileName bytes (dir_any s1),
                        entries_any := prop_set modID (data\<lparr>file_val := JStr fileName\<rparr>) (entries_any s1)\<rparr>)))"

definition after_diff_any :: "'b world_any \<Rightarrow> diff_state_any \<Rightarrow> 'b exec_state_any" where
  "after_diff_any w d =
     \<lparr>entries_any = dataKeys_any d,
      dir_any = foldl (\<lambda>m name. Juke_rm name m) (modcache_any w) (removed_any d),
      trace_any = MkdirSync_any ''dist/modcache''
                  # map (\<lambda>name. JukeRm_any (''dist/modcache/'' @ name)) (removed_any d)\<rparr>"

text \<open>
  The two branches of line 164. With a record on disk, \<open>JSON.parse\<close> of the record
  (line 167) comes before the first read of \<open>manifest.files\<close> (line 169).
\<close>

definition plan_any ::
  "any_manifest \<Rightarrow> (string \<times> any_old) list json_file \<Rightarrow> (js_error \<times> diff_state_any) + diff_state_any"
where
  "plan_any manifest cache =
     (let d0 = \<lparr>dataKeys_any = [], mIdToDownload_any = [], removed_any = []\<rparr>
      in case cache of
           Unparsable \<Rightarrow> Inl (SyntaxError, d0)
         | Json members \<Rightarrow>
             (case manifest of
                Null_manifest \<Rightarrow> Inl (TypeError, d0)
              | Files files \<Rightarrow> diff_any files (JSON_parse_object members))
         | Missing \<Rightarrow>
             (case manifest of
                Null_manifest \<Rightarrow> Inl (TypeError, d0)
              | Files files \<Rightarrow> remap_any files d0))"

definition DownloadModsTarget_any ::
  "(string \<Rightarrow> jsval \<Rightarrow> 'e + string \<times> 'b) \<Rightarrow> 'b world_any
     \<Rightarrow> ('e failure + unit) \<times> 'b world_any \<times> action_any list"
where
  "DownloadModsTarget_any DownloadCF w =
     (case manifest_value w of
        Missing \<Rightarrow> (Inl (Thrown ENOENT), w, [])
      | Unparsable \<Rightarrow> (Inl (Thrown SyntaxError), w, [])
      | Json manifest \<Rightarrow>
          (case plan_any manifest (cache_value w) of
             Inl (e, d) \<Rightarrow>
               (Inl (Thrown e), w\<lparr>modcache_any := dir_any (after_diff_any w d)\<rparr>,
                trace_any (after_diff_any w d))
           | Inr d \<Rightarrow>
               (case download_loop_any DownloadCF (mIdToDownload_any d) (after_diff_any w d) of
                  (Inl e, s) \<Rightarrow> (Inl e, w\<lparr>modcache_any := dir_any s\<rparr>, trace_any s)
                | (Inr u, s) \<Rightarrow>
                    (Inr (),
                     w\<lparr>modcache_any := dir_any s,
                       cache_value := Json (JSON_stringify (entries_any s))\<rparr>,
                     trace_any s @ [WriteFileSync_any ''dist/cache.json'' (JSON_stringify (entries_any s))]))))"

subsection \<open>Vocabulary of the properties\<close>

text \<open>
  \<open>desired\<close> is the entry of the manifest that counts for a project id (the last one,
  since a later assignment to \<open>newData\<close> overwrites an earlier one); \<open>rm_of\<close> is the
  deletion the loops issue for an id of the previous record; \<open>changed\<close> is the filter
  of the second loop as a predicate; \<open>merged\<close> is the record the diff leaves behind.
\<close>

definition desired :: "manifest_entry list \<Rightarrow> nat \<Rightarrow> new_data option" where
  "desired files pid =
     map_of (rev (map (\<lambda>data. (projectID data, \<lparr>fileID = fileID data, required = required data\<rparr>)) files)) pid"

definition rm_of :: "old_data obj \<Rightarrow> nat \<Rightarrow> nat \<times> string" where
  "rm_of ob pid = (pid, template (case obj_get ob pid of None \<Rightarrow> None | Some od \<Rightarrow> file od))"

definition changed :: "new_data obj \<Rightarrow> old_data obj \<Rightarrow> nat \<Rightarrow> bool" where
  "changed newData oldData pid =
     (case obj_get newData pid of None \<Rightarrow> False
      | Some nd \<Rightarrow> (case obj_get oldData pid of None \<Rightarrow> False | Some od \<Rightarrow> fileID od \<noteq> fileID nd))"

definition merged :: "new_data obj \<Rightarrow> old_data obj \<Rightarrow> nat \<Rightarrow> old_data option" where
  "merged newData oldData k =
     (case obj_get newData k of
        None \<Rightarrow> None
      | Some nd \<Rightarrow>
          (case obj_get oldData k of
             None \<Rightarrow> Some (copy_new nd)
           | Some od \<Rightarrow> if fileID od \<noteq> fileID nd then Some (copy_new nd) else Some od))"

fun is_rm :: "action \<Rightarrow> bool" where
  "is_rm (JukeRm p) = True"
| "is_rm a = False"

fun is_download :: "action \<Rightarrow> bool" where
  "is_download (CallDownloadCF m f p) = True"
| "is_download a = False"

fun is_write :: "action \<Rightarrow> bool" where
  "is_write (WriteFileSync p c) = True"
| "is_write a = False"

text \<open>
  \<open>previous\<close> is the record a run starts from (empty when \<open>dist/cache.json\<close> is
  missing); \<open>stale\<close> and \<open>wanted\<close> say which ids the diff deletes and which it
  schedules. \<open>download_calls\<close> are the calls of \<open>DownloadCF\<close> for a list of ids,
  \<open>fetched\<close> what a call returns for an id, \<open>store\<close> the directory after the files
  returned for a list of ids are written, and \<open>named\<close> the record after their names are
  stored.
\<close>

definition download_calls :: "old_data obj \<Rightarrow> nat list \<Rightarrow> action list" where
  "download_calls ob ids =
     concat (map (\<lambda>k. case obj_get ob k of
                         None \<Rightarrow> []
                       | Some data \<Rightarrow> [CallDownloadCF k (fileID data) ''dist/modcache/'']) ids)"

definition fetched :: "(nat \<Rightarrow> nat \<Rightarrow> 'e + string \<times> 'b) \<Rightarrow> old_data obj \<Rightarrow> nat \<Rightarrow> (string \<times> 'b) option" where
  "fetched DownloadCF ob k =
     (case obj_get ob k of
        None \<Rightarrow> None
      | Some data \<Rightarrow> (case DownloadCF k (fileID data) of Inl e \<Rightarrow> None | Inr res \<Rightarrow> Some res))"

definition store :: "(nat \<Rightarrow> (string \<times> 'b) option) \<Rightarrow> (string \<rightharpoonup> 'b) \<Rightarrow> nat list \<Rightarrow> (string \<rightharpoonup> 'b)" where
  "store got m ids = foldl (\<lambda>m k. case got k of None \<Rightarrow> m | Some res \<Rightarrow> m(fst res \<mapsto> snd res)) m ids"

definition named :: "(nat \<Rightarrow> (string \<times> 'b) option) \<Rightarrow> old_data obj \<Rightarrow> nat list \<Rightarrow> nat \<Rightarrow> old_data option" where
  "named got ob ids k =
     (case obj_get ob k of
        None \<Rightarrow> None
      | Some data \<Rightarrow> if k \<in> set ids then Some (data\<lparr>file := map_option fst (got k)\<rparr>) else Some data)"

definition previous :: "old_data obj json_file \<Rightarrow> old_data obj" where
  "previous cache = (case cache of Json oldData \<Rightarrow> oldData | _ \<Rightarrow> [])"

definition stale :: "new_data obj \<Rightarrow> old_data obj \<Rightarrow> nat \<Rightarrow> bool" where
  "stale newData oldData k \<longleftrightarrow>
     obj_get oldData k \<noteq> None \<and> (obj_get newData k = None \<or> changed newData oldData k)"

definition wanted :: "new_data obj \<Rightarrow> old_data obj \<Rightarrow> nat \<Rightarrow> bool" where
  "wanted newData oldData k \<longleftrightarrow>
     obj_get newData k \<noteq> None \<and> (obj_get oldData k = None \<or> changed newData oldData k)"

text \<open>
  An entry of a record \<open>references\<close> a file when its \<open>file\<close> property is that name. A
  directory and a record are \<open>consistent\<close> when every file of the directory is
  referenced by exactly one entry and the file of every entry is in the directory.
  \<open>fresh_names\<close> says of the downloads a plan schedules that no two mods get the same
  file name and that no name equals the file name of an entry the plan keeps.
\<close>

definition references :: "old_data obj \<Rightarrow> nat \<Rightarrow> string \<Rightarrow> bool" where
  "references ob k name \<longleftrightarrow> (\<exists>data. obj_get ob k = Some data \<and> file data = Some name)"

definition consistent :: "(string \<rightharpoonup> 'b) \<Rightarrow> old_data obj \<Rightarrow> bool" where
  "consistent m ob \<longleftrightarrow>
     (\<forall>name. m name \<noteq> None \<longrightarrow> (\<exists>!k. references ob k name)) \<and>
     (\<forall>k data. obj_get ob k = Some data \<longrightarrow> (\<exists>name. file data = Some name \<and> m name \<noteq> None))"

definition fresh_names :: "(nat \<Rightarrow> (string \<times> 'b) option) \<Rightarrow> diff_state \<Rightarrow> bool" where
  "fresh_names got d \<longleftrightarrow>
     (\<forall>k\<in>set (mIdToDownload d). \<forall>res. got k = Some res \<longrightarrow>
        (\<forall>k'\<in>set (mIdToDownload d). \<forall>res'. got k' = Some res' \<and> fst res' = fst res \<longrightarrow> k' = k) \<and>
        (\<forall>k' data. k' \<notin> set (mIdToDownload d) \<and> obj_get (dataKeys d) k' = Some data \<longrightarrow>
           file data \<noteq> Some (fst res)))"

subsection \<open>Example inputs\<close>

text \<open>
  A manifest entry and a cached record as written in the files; \<open>jar\<close>, a
  \<open>DownloadCF\<close> that names the file after the mod id and returns the file id as its
  bytes, and \<open>jar_but\<close>, which rejects for one mod.
  \<^item> \<open>world1\<close> has three cached mods and a manifest that keeps mod 1 (with another
    \<open>required\<close>), drops mod 2, moves mod 3 to a new file and adds mod 5; \<open>plan1\<close> is
    what the diff computes for it.
  \<^item> \<open>world2\<close> is a first run on three mods, \<open>world3\<close> a first run on a manifest that
    lists project 1 twice.
  \<^item> \<open>world4\<close> has a record in which two mods name the same file, and a manifest that
    keeps the first.
  \<^item> \<open>world5\<close> is what the run of \<open>world2\<close> leaves when the download of mod 2 is
    rejected, with the manifest then reduced to mod 3.
\<close>

definition entry :: "nat \<Rightarrow> nat \<Rightarrow> bool \<Rightarrow> manifest_entry" where
  "entry p f r = \<lparr>fileID = f, required = r, projectID = p\<rparr>"

definition cached :: "nat \<Rightarrow> bool \<Rightarrow> string \<Rightarrow> old_data" where
  "cached f r n = \<lparr>fileID = f, required = r, file = Some n\<rparr>"

definition jar :: "nat \<Rightarrow> nat \<Rightarrow> unit + string \<times> nat" where
  "jar m f = Inr (replicate m (CHR ''m'') @ ''.jar'', f)"

definition jar_but :: "nat \<Rightarrow> nat \<Rightarrow> nat \<Rightarrow> unit + string \<times> nat" where
  "jar_but b m f = (if m = b then Inl () else jar m f)"

definition world1 :: "nat world" where
  "world1 = \<lparr>manifest_json = Json [entry 3 30 True, entry 1 10 True, entry 5 50 False],
     cache_json = Json [(1, cached 10 False ''a.jar''), (2, cached 20 True ''b.jar''), (3, cached 29 True ''c.jar'')],
     modcache = [''a.jar'' \<mapsto> 10, ''b.jar'' \<mapsto> 20, ''c.jar'' \<mapsto> 29]\<rparr>"

definition plan1 :: diff_state where
  "plan1 = \<lparr>dataKeys = [(1, cached 10 False ''a.jar''),
                (3, \<lparr>fileID = 30, required = True, file = None\<rparr>),
                (5, \<lparr>fileID = 50, required = False, file = None\<rparr>)],
              mIdToDownload = [5, 3], removed = [(2, ''b.jar''), (3, ''c.jar'')]\<rparr>"

definition world2 :: "nat world" where
  "world2 = \<lparr>manifest_json = Json [entry 1 10 True, entry 2 20 True, entry 3 30 True],
     cache_json = Missing, modcache = Map.empty\<rparr>"

definition world3 :: "nat world" where
  "world3 = \<lparr>manifest_json = Json [entry 1 10 True, entry 1 11 False],
     cache_json = Missing, modcache = Map.empty\<rparr>"

definition world4 :: "nat world" where
  "world4 = \<lparr>manifest_json = Json [entry 1 10 True],
     cache_json = Json [(1, cached 10 True ''shared.jar''), (2, cached 20 True ''shared.jar'')],
     modcache = [''shared.jar'' \<mapsto> 10]\<rparr>"

definition world5 :: "nat world" where
  "world5 = (fst (snd (DownloadModsTarget (jar_but 2) world2)))\<lparr>manifest_json := Json [entry 3 30 True]\<rparr>"

text \<open>
  For the target on a manifest of any shape: \<open>jar_any\<close>, a \<open>DownloadCF\<close> that names the
  file after the key it is given, and \<open>no_such_mod\<close>, which rejects every call;
  \<open>fresh_world\<close>, a first run on the given manifest, and \<open>cached_world\<close>, a run on it
  with mod 1 in the record and its file \<open>a.jar\<close> in the directory.
\<close>

definition jar_any :: "string \<Rightarrow> jsval \<Rightarrow> unit + string \<times> nat" where
  "jar_any m f = Inr (m @ ''.jar'', 0)"

definition no_such_mod :: "string \<Rightarrow> jsval \<Rightarrow> unit + string \<times> nat" where
  "no_such_mod m f = Inl ()"

definition fresh_world :: "any_manifest json_file \<Rightarrow> nat world_any" where
  "fresh_world manifest =
     \<lparr>manifest_value = manifest, cache_value = Missing, modcache_any = Map.empty\<rparr>"

definition cached_world :: "any_manifest json_file \<Rightarrow> nat world_any" where
  "cached_world manifest =
     \<lparr>manifest_value = manifest,
      cache_value = Json [(''1'', \<lparr>fileID_val = JNum 10, required_val = JBool True, file_val = JStr ''a.jar''\<rparr>)],
      modcache_any = [''a.jar'' \<mapsto> 10]\<rparr>"

section \<open>Properties\<close>

declare Juke_rm_def [simp] DownloadCF_stores_def [simp]

subsection \<open>Objects\<close>

text \<open>
  Reading an object after an assignment or a \<open>delete\<close>, and what \<open>Object.keys\<close> lists.
\<close>

lemma obj_get_set: "obj_get (obj_set k v ob) k' = (if k' = k then Some v else obj_get ob k')"
  by (induction ob) (auto simp: obj_get_def)

lemma obj_get_delete: "obj_get (obj_delete k ob) k' = (if k' = k then None else obj_get ob k')"
  by (induction ob) (auto simp: obj_get_def obj_delete_def)

lemma in_Object_keys: "k \<in> set (Object_keys ob) \<longleftrightarrow> obj_get ob k \<noteq> None"
  by (auto simp: Object_keys_def obj_get_def map_of_eq_None_iff)

lemma distinct_Object_keys: "distinct (Object_keys ob)"
  by (simp add: Object_keys_def)

lemma Object_keys_sorted_list: "Object_keys ob = sorted_list_of_set {k. obj_get ob k \<noteq> None}"
proof -
  have "{k. obj_get ob k \<noteq> None} = set (map fst ob)"
    by (auto simp: obj_get_def map_of_eq_None_iff)
  then show ?thesis
    unfolding Object_keys_def by (simp only: sorted_list_of_set_sort_remdups)
qed

subsection \<open>The manifest as \<open>newData\<close>\<close>

text \<open>
  \<open>newData\<close> holds, for each project id of the manifest, the fields of its last entry.
\<close>

lemma newData_foldl:
  "obj_get (foldl (\<lambda>newData data.
              obj_set (projectID data) \<lparr>fileID = fileID data, required = required data\<rparr> newData) acc files) pid
   = (case desired files pid of None \<Rightarrow> obj_get acc pid | Some nd \<Rightarrow> Some nd)"
  by (induction files arbitrary: acc) (auto simp: desired_def obj_get_set map_add_def split: option.splits)

lemma obj_get_newData_of: "obj_get (newData_of files) pid = desired files pid"
  by (simp add: newData_of_def newData_foldl) (simp add: obj_get_def split: option.splits)

lemma desired_None_iff: "desired files pid = None \<longleftrightarrow> pid \<notin> projectID ` set files"
  by (force simp: desired_def map_of_eq_None_iff image_iff)

lemma newData_of_distinct:
  "distinct (map projectID files) \<Longrightarrow> data \<in> set files \<Longrightarrow>
   obj_get (newData_of files) (projectID data) = Some \<lparr>fileID = fileID data, required = required data\<rparr>"
  unfolding obj_get_newData_of desired_def
  by (rule map_of_is_SomeI) (auto simp: distinct_rev rev_map [symmetric] comp_def)

lemma Object_keys_newData_of:
  "Object_keys (newData_of files) = sorted_list_of_set (set (map projectID files))"
proof -
  have "{k. obj_get (newData_of files) k \<noteq> None} = set (map projectID files)"
    by (auto simp: obj_get_newData_of desired_None_iff)
  then show ?thesis
    by (simp only: Object_keys_sorted_list)
qed

lemma fileID_desired:
  "map_option fileID (desired files pid)
     = map_of (rev (zip (map projectID files) (map fileID files))) pid"
proof -
  have "map_option fileID (desired files pid)
      = map_of (map (\<lambda>(k, v). (k, fileID v))
          (rev (map (\<lambda>data. (projectID data, \<lparr>fileID = fileID data, required = required data\<rparr>)) files))) pid"
    by (simp add: desired_def map_of_map)
  also have "map (\<lambda>(k, v). (k, fileID v))
          (rev (map (\<lambda>data. (projectID data, \<lparr>fileID = fileID data, required = required data\<rparr>)) files))
      = rev (zip (map projectID files) (map fileID files))"
    by (simp add: rev_map zip_map_map comp_def zip_same_conv_map)
  finally show ?thesis .
qed

lemma merged_in_manifest:
  "k \<in> projectID ` set files \<Longrightarrow> merged (newData_of files) oldData k \<noteq> None"
  using desired_None_iff [of files k]
  by (auto simp: merged_def obj_get_newData_of split: option.splits)

lemma wanted_in_manifest:
  "wanted (newData_of files) oldData k \<Longrightarrow> k \<in> projectID ` set files"
  using desired_None_iff [of files k]
  by (auto simp: wanted_def obj_get_newData_of)

subsection \<open>The diff loops\<close>

text \<open>
  Each loop in closed form, then the diff: it never throws, deletes the files of the
  ids that left the manifest and of those whose file id changed, and schedules the new
  ids and the changed ones.
\<close>

lemma loop1_removals:
  "distinct A \<Longrightarrow> \<forall>pid\<in>set A. obj_get (dataKeys d) pid \<noteq> None \<Longrightarrow>
   d' = foldl (removed_or_added newData) d A \<Longrightarrow>
   mIdToDownload d' = mIdToDownload d \<and>
   removed d' = removed d @ map (rm_of (dataKeys d)) A \<and>
   (\<forall>k. obj_get (dataKeys d') k = (if k \<in> set A then None else obj_get (dataKeys d) k))"
proof (induction A arbitrary: d)
  case Nil
  then show ?case by simp
next
  case (Cons pid A)
  let ?d1 = "removed_or_added newData d pid"
  from Cons.prems obtain od where od: "obj_get (dataKeys d) pid = Some od" by auto
  have d1: "mIdToDownload ?d1 = mIdToDownload d"
       "removed ?d1 = removed d @ [rm_of (dataKeys d) pid]"
       "\<And>k. obj_get (dataKeys ?d1) k = (if k = pid then None else obj_get (dataKeys d) k)"
    using od by (simp_all add: removed_or_added_def rm_of_def obj_get_delete)
  have "mIdToDownload d' = mIdToDownload ?d1 \<and>
   removed d' = removed ?d1 @ map (rm_of (dataKeys ?d1)) A \<and>
   (\<forall>k. obj_get (dataKeys d') k = (if k \<in> set A then None else obj_get (dataKeys ?d1) k))"
    using Cons.prems by (intro Cons.IH) (auto simp: d1)
  moreover have "map (rm_of (dataKeys ?d1)) A = map (rm_of (dataKeys d)) A"
    using Cons.prems(1) by (auto simp: rm_of_def d1)
  ultimately show ?case by (auto simp: d1)
qed

lemma loop1_additions:
  "distinct B \<Longrightarrow> \<forall>pid\<in>set B. obj_get (dataKeys d) pid = None \<and> obj_get newData pid \<noteq> None \<Longrightarrow>
   set B \<inter> set (mIdToDownload d) = {} \<Longrightarrow>
   d' = foldl (removed_or_added newData) d B \<Longrightarrow>
   mIdToDownload d' = mIdToDownload d @ B \<and>
   removed d' = removed d \<and>
   (\<forall>k. obj_get (dataKeys d') k =
      (if k \<in> set B then map_option copy_new (obj_get newData k) else obj_get (dataKeys d) k))"
proof (induction B arbitrary: d)
  case Nil
  then show ?case by simp
next
  case (Cons pid B)
  let ?d1 = "removed_or_added newData d pid"
  from Cons.prems obtain nd where nd: "obj_get newData pid = Some nd"
    and no: "obj_get (dataKeys d) pid = None" and fresh: "pid \<notin> set (mIdToDownload d)" by auto
  have d1: "mIdToDownload ?d1 = mIdToDownload d @ [pid]"
       "removed ?d1 = removed d"
       "\<And>k. obj_get (dataKeys ?d1) k = (if k = pid then Some (copy_new nd) else obj_get (dataKeys d) k)"
    using nd no fresh by (simp_all add: removed_or_added_def obj_get_set)
  have "mIdToDownload d' = mIdToDownload ?d1 @ B \<and>
   removed d' = removed ?d1 \<and>
   (\<forall>k. obj_get (dataKeys d') k =
      (if k \<in> set B then map_option copy_new (obj_get newData k) else obj_get (dataKeys ?d1) k))"
    using Cons.prems by (intro Cons.IH) (auto simp: d1)
  then show ?case using nd by (auto simp: d1)
qed

lemma fileID_changed_filter:
  "\<forall>pid\<in>set pids. obj_get newData pid \<noteq> None \<longrightarrow> obj_get oldData pid \<noteq> None \<Longrightarrow>
   fileID_changed newData oldData pids = Inr (filter (changed newData oldData) pids)"
  by (induction pids) (auto simp: changed_def split: option.splits)

lemma loop2_updates:
  "distinct C \<Longrightarrow> \<forall>pid\<in>set C. obj_get (dataKeys d) pid \<noteq> None \<and> obj_get newData pid \<noteq> None \<Longrightarrow>
   set C \<inter> set (mIdToDownload d) = {} \<Longrightarrow>
   \<exists>d'. (updated newData C d) = Inr d' \<and>
     mIdToDownload d' = mIdToDownload d @ C \<and>
     removed d' = removed d @ map (rm_of (dataKeys d)) C \<and>
     (\<forall>k. obj_get (dataKeys d') k =
        (if k \<in> set C then map_option copy_new (obj_get newData k) else obj_get (dataKeys d) k))"
proof (induction C arbitrary: d)
  case Nil
  then show ?case by simp
next
  case (Cons pid C)
  from Cons.prems obtain nd od where nd: "obj_get newData pid = Some nd"
    and od: "obj_get (dataKeys d) pid = Some od" and fresh: "pid \<notin> set (mIdToDownload d)" by auto
  define d1 where "d1 = d\<lparr>removed := removed d @ [(pid, template (file od))],
                      mIdToDownload := push_new pid (mIdToDownload d),
                      dataKeys := obj_set pid (copy_new nd) (dataKeys d)\<rparr>"
  have step: "(updated newData (pid # C) d) = updated newData C d1"
    using nd od by (simp add: d1_def Let_def)
  have d1: "mIdToDownload d1 = mIdToDownload d @ [pid]"
       "removed d1 = removed d @ [rm_of (dataKeys d) pid]"
       "\<And>k. obj_get (dataKeys d1) k = (if k = pid then Some (copy_new nd) else obj_get (dataKeys d) k)"
    using od fresh by (simp_all add: d1_def push_new_def rm_of_def obj_get_set)
  have "\<exists>d'. (updated newData C d1) = Inr d' \<and>
     mIdToDownload d' = mIdToDownload d1 @ C \<and>
     removed d' = removed d1 @ map (rm_of (dataKeys d1)) C \<and>
     (\<forall>k. obj_get (dataKeys d') k =
        (if k \<in> set C then map_option copy_new (obj_get newData k) else obj_get (dataKeys d1) k))"
    using Cons.prems by (intro Cons.IH) (auto simp: d1)
  moreover have "map (rm_of (dataKeys d1)) C = map (rm_of (dataKeys d)) C"
    using Cons.prems(1) by (auto simp: rm_of_def d1)
  ultimately show ?case using nd by (auto simp: d1 step simp del: updated.simps)
qed

lemma rm_of_cong: "obj_get ob pid = obj_get ob' pid \<Longrightarrow> rm_of ob pid = rm_of ob' pid"
  by (simp add: rm_of_def)

lemma diff_closed_form:
  fixes files oldData
  defines "newData \<equiv> newData_of files"
  defines "A \<equiv> filter (\<lambda>pid. pid \<notin> set (Object_keys newData)) (Object_keys oldData)"
  defines "B \<equiv> filter (\<lambda>x. x \<notin> set (Object_keys oldData)) (Object_keys newData)"
  defines "C \<equiv> filter (changed newData oldData) (Object_keys oldData)"
  shows "\<exists>d. diff files oldData = Inr d \<and>
           mIdToDownload d = B @ C \<and>
           removed d = map (rm_of oldData) (A @ C) \<and>
           (\<forall>k. obj_get (dataKeys d) k = merged newData oldData k)"
proof -
  define d0 where "d0 = \<lparr>dataKeys = oldData, mIdToDownload = [], removed = []\<rparr>"
  define dA where "dA = foldl (removed_or_added newData) d0 A"
  define d1 where "d1 = foldl (removed_or_added newData) dA B"
  have A: "distinct A" "\<And>pid. pid \<in> set A \<longleftrightarrow> obj_get oldData pid \<noteq> None \<and> obj_get newData pid = None"
    by (auto simp: A_def distinct_Object_keys in_Object_keys)
  have B: "distinct B" "\<And>pid. pid \<in> set B \<longleftrightarrow> obj_get oldData pid = None \<and> obj_get newData pid \<noteq> None"
    by (auto simp: B_def distinct_Object_keys in_Object_keys)
  have C: "distinct C" "\<And>pid. pid \<in> set C \<longleftrightarrow> changed newData oldData pid"
    by (auto simp: C_def distinct_Object_keys in_Object_keys changed_def split: option.splits)
  have dA: "mIdToDownload dA = []" "removed dA = map (rm_of oldData) A"
      "\<And>k. obj_get (dataKeys dA) k = (if k \<in> set A then None else obj_get oldData k)"
    using loop1_removals [of A d0 dA newData] A by (simp_all add: d0_def dA_def)
  have d1: "mIdToDownload d1 = B" "removed d1 = map (rm_of oldData) A"
      "\<And>k. obj_get (dataKeys d1) k =
         (if k \<in> set B then map_option copy_new (obj_get newData k)
          else if k \<in> set A then None else obj_get oldData k)"
    using loop1_additions [of B dA newData d1] B by (simp_all add: dA d1_def)
  have keep: "obj_get (dataKeys d1) pid = obj_get oldData pid"
    if "obj_get oldData pid \<noteq> None" "obj_get newData pid \<noteq> None" for pid
    using that by (auto simp: d1 A B)
  have "(fileID_changed newData (dataKeys d1) (Object_keys oldData))
          = Inr (filter (changed newData (dataKeys d1)) (Object_keys oldData))"
    by (rule fileID_changed_filter) (simp add: in_Object_keys keep)
  moreover have "filter (changed newData (dataKeys d1)) (Object_keys oldData) = C"
    unfolding C_def
    by (rule filter_cong [OF refl]) (auto simp: changed_def d1 A B in_Object_keys split: option.splits)
  ultimately have flt: "(fileID_changed newData (dataKeys d1) (Object_keys oldData)) = Inr C"
    by simp
  have Cin: "\<forall>pid\<in>set C. obj_get (dataKeys d1) pid \<noteq> None \<and> obj_get newData pid \<noteq> None"
    by (auto simp: C changed_def d1 A B split: option.splits)
  have "set C \<inter> set (mIdToDownload d1) = {}"
    by (auto simp: d1 B C changed_def split: option.splits)
  with loop2_updates [of C d1 newData] C(1) Cin
  obtain d' where d': "(updated newData C d1) = Inr d'"
     "mIdToDownload d' = mIdToDownload d1 @ C"
     "removed d' = removed d1 @ map (rm_of (dataKeys d1)) C"
     "\<And>k. obj_get (dataKeys d') k =
        (if k \<in> set C then map_option copy_new (obj_get newData k) else obj_get (dataKeys d1) k)"
    by blast
  have "map (rm_of (dataKeys d1)) C = map (rm_of oldData) C"
    by (rule map_cong [OF refl], rule rm_of_cong) (auto simp: C changed_def d1 A B split: option.splits)
  then have rem: "removed d' = map (rm_of oldData) (A @ C)"
    by (simp add: d' d1)
  have "obj_get (dataKeys d') k = merged newData oldData k" for k
    by (auto simp: d' d1 A B C merged_def changed_def split: option.splits)
  moreover have "diff files oldData = Inr d'"
    using flt d'(1)
    by (simp add: diff_def Let_def newData_def [symmetric] A_def [symmetric] B_def [symmetric]
          d0_def [symmetric] dA_def [symmetric] d1_def [symmetric])
  ultimately show ?thesis
    using rem d'(2) d1(1) by auto
qed

lemma changed_by_fileID:
  "changed newData oldData pid \<longleftrightarrow>
     (\<exists>f od. map_option fileID (obj_get newData pid) = Some f \<and> obj_get oldData pid = Some od
        \<and> fileID od \<noteq> f)"
  by (auto simp: changed_def split: option.splits)

lemma remap_foldl:
  "d' = foldl (\<lambda>d data.
              d\<lparr>dataKeys := obj_set (projectID data)
                               \<lparr>fileID = fileID data, required = required data, file = None\<rparr>
                               (dataKeys d),
                mIdToDownload := mIdToDownload d @ [projectID data]\<rparr>) d files \<Longrightarrow>
   mIdToDownload d' = mIdToDownload d @ map projectID files \<and> removed d' = removed d \<and>
   (\<forall>k. obj_get (dataKeys d') k =
      (case desired files k of None \<Rightarrow> obj_get (dataKeys d) k | Some nd \<Rightarrow> Some (copy_new nd)))"
proof (induction files arbitrary: d d')
  case Nil
  then show ?case by (simp add: desired_def)
next
  case (Cons data files)
  show ?case
    using Cons.IH [OF refl] Cons.prems
    by (auto simp: desired_def obj_get_set copy_new_def map_add_def split: option.splits)
qed

lemma remap_closed_form:
  "mIdToDownload (remap files) = map projectID files"
  "removed (remap files) = []"
  "obj_get (dataKeys (remap files)) k = map_option copy_new (obj_get (newData_of files) k)"
  using remap_foldl [OF refl, of "\<lparr>dataKeys = [], mIdToDownload = [], removed = []\<rparr>" files]
  by (auto simp: remap_def obj_get_newData_of obj_get_def [of "[]"] split: option.splits)

lemma plan_sets:
  assumes "cache \<noteq> Unparsable"
  shows "\<exists>d. (plan files cache) = Inr d \<and>
           set (mIdToDownload d) = {k. wanted (newData_of files) (previous cache) k} \<and>
           set (removed d) = rm_of (previous cache) ` {k. stale (newData_of files) (previous cache) k} \<and>
           (\<forall>k. obj_get (dataKeys d) k = merged (newData_of files) (previous cache) k)"
proof (cases cache)
  case Missing
  have "set (map projectID files) = {k. obj_get (newData_of files) k \<noteq> None}"
    by (auto simp: obj_get_newData_of desired_None_iff)
  then show ?thesis
    using Missing
    by (auto simp: plan_def previous_def remap_closed_form wanted_def stale_def merged_def
          changed_def obj_get_def [of "[]"] split: option.splits)
next
  case Unparsable
  with assms show ?thesis by simp
next
  case (Json oldData)
  let ?new = "newData_of files"
  from diff_closed_form [of files oldData]
  obtain d where d: "diff files oldData = Inr d"
    "mIdToDownload d = filter (\<lambda>x. x \<notin> set (Object_keys oldData)) (Object_keys ?new)
        @ filter (changed ?new oldData) (Object_keys oldData)"
    "removed d = map (rm_of oldData)
        (filter (\<lambda>pid. pid \<notin> set (Object_keys ?new)) (Object_keys oldData)
         @ filter (changed ?new oldData) (Object_keys oldData))"
    "\<And>k. obj_get (dataKeys d) k = merged ?new oldData k"
    by blast
  have 1: "set (mIdToDownload d) = {k. wanted ?new oldData k}"
    unfolding d(2) by (auto simp: wanted_def in_Object_keys changed_def split: option.splits)
  have 2: "set (removed d) = rm_of oldData ` {k. stale ?new oldData k}"
    unfolding d(3) set_map
    by (rule arg_cong [where f = "image (rm_of oldData)"])
       (auto simp: stale_def in_Object_keys changed_def split: option.splits)
  show ?thesis
    using d(1,4) 1 2 Json by (simp add: plan_def previous_def)
qed

lemma unchanged_in_plan:
  assumes "cache_json w = Json oldData" "obj_get oldData pid = Some od"
    "obj_get (newData_of files) pid = Some nd" "fileID od = fileID nd"
  shows "\<exists>d. plan files (cache_json w) = Inr d \<and> pid \<notin> fst ` set (removed d) \<and>
           pid \<notin> set (mIdToDownload d) \<and> obj_get (dataKeys d) pid = Some od"
proof -
  from plan_sets [of "cache_json w" files] assms(1) obtain d
    where d: "plan files (cache_json w) = Inr d"
      "set (mIdToDownload d) = {k. wanted (newData_of files) oldData k}"
      "set (removed d) = rm_of oldData ` {k. stale (newData_of files) oldData k}"
      "\<And>k. obj_get (dataKeys d) k = merged (newData_of files) oldData k"
    by (auto simp: previous_def)
  have "\<not> wanted (newData_of files) oldData pid" "\<not> stale (newData_of files) oldData pid"
    using assms(2-4) by (simp_all add: wanted_def stale_def changed_def)
  moreover have "fst ` rm_of oldData ` S = S" for S
    by (auto simp: rm_of_def image_iff)
  moreover have "merged (newData_of files) oldData pid = Some od"
    using assms(2-4) by (simp add: merged_def)
  ultimately show ?thesis
    using d by auto
qed

lemma removed_names:
  assumes "set rms = rm_of oldData ` {k. stale newData oldData k}"
  shows "name \<in> snd ` set rms \<longleftrightarrow>
     (\<exists>k od. stale newData oldData k \<and> obj_get oldData k = Some od \<and> template (file od) = name)"
proof
  assume "name \<in> snd ` set rms"
  with assms obtain k where k: "stale newData oldData k" "name = snd (rm_of oldData k)"
    by auto
  from k(1) obtain od where "obj_get oldData k = Some od"
    by (auto simp: stale_def)
  with k show "\<exists>k od. stale newData oldData k \<and> obj_get oldData k = Some od \<and> template (file od) = name"
    by (auto simp: rm_of_def)
next
  assume "\<exists>k od. stale newData oldData k \<and> obj_get oldData k = Some od \<and> template (file od) = name"
  then obtain k od where k: "stale newData oldData k" "obj_get oldData k = Some od" "template (file od) = name"
    by blast
  then have "rm_of oldData k = (k, name)"
    by (simp add: rm_of_def)
  with k(1) assms have "(k, name) \<in> set rms"
    by (metis (mono_tags, lifting) image_eqI mem_Collect_eq)
  then show "name \<in> snd ` set rms"
    by force
qed

lemma kept_is_old:
  assumes "\<not> wanted newData oldData k" "merged newData oldData k = Some data"
  shows "obj_get oldData k = Some data \<and> \<not> stale newData oldData k"
  using assms
  by (auto simp: wanted_def merged_def stale_def changed_def split: option.splits if_splits)

lemma old_is_kept:
  assumes "obj_get oldData k = Some data" "\<not> stale newData oldData k"
  shows "\<not> wanted newData oldData k \<and> merged newData oldData k = Some data"
  using assms
  by (auto simp: wanted_def merged_def stale_def changed_def split: option.splits if_splits)

subsection \<open>Calls and files\<close>

text \<open>
  Facts on the lists of calls and on the directory after deletions and downloads.
\<close>

lemma rm_actions_are_rm: "\<forall>a\<in>set (rm_actions rms). is_rm a"
  by (simp add: rm_actions_def)

lemma rm_actions_no_download: "filter is_download (rm_actions rms) = []"
  by (induction rms) (auto simp: rm_actions_def)

lemma rm_actions_no_call: "CallDownloadCF k f dest \<notin> set (rm_actions rms)"
  by (auto simp: rm_actions_def)

lemma rm_files_apply:
  "rm_files rms m name = (if name \<in> snd ` set rms then None else m name)"
  unfolding rm_files_def by (induction rms arbitrary: m) auto

lemma download_not_rm: "is_download a \<Longrightarrow> \<not> is_rm a"
  by (cases a) auto

lemma download_not_write: "is_download a \<Longrightarrow> \<not> is_write a"
  by (cases a) auto

lemma download_calls_are_downloads: "filter is_download (download_calls ob ids) = download_calls ob ids"
  by (induction ids) (auto simp: download_calls_def split: option.splits)

lemma download_calls_append:
  "download_calls ob (xs @ ys) = download_calls ob xs @ download_calls ob ys"
  by (simp add: download_calls_def)

lemma split_order:
  assumes "tr = pre @ post" "\<forall>a\<in>set pre. \<not> Q a" "\<forall>a\<in>set post. \<not> P a"
    and "i < length tr" "j < length tr" "P (tr ! i)" "Q (tr ! j)"
  shows "i < j"
proof -
  have "i < length pre"
    using assms by (cases "i < length pre") (auto simp: nth_append)
  moreover have "\<not> j < length pre"
    using assms by (auto simp: nth_append)
  ultimately show ?thesis by simp
qed

lemma store_absent:
  "store got m ids name = None \<longleftrightarrow>
     m name = None \<and> (\<forall>k\<in>set ids. \<forall>res. got k = Some res \<longrightarrow> fst res \<noteq> name)"
proof (induction ids arbitrary: m)
  case Nil
  then show ?case by (simp add: store_def)
next
  case (Cons k ids)
  have step: "store got m (k # ids) = store got (case got k of None \<Rightarrow> m | Some res \<Rightarrow> m(fst res \<mapsto> snd res)) ids"
    by (simp add: store_def)
  show ?case
    unfolding step Cons.IH by (cases "got k") auto
qed

lemma store_present:
  "store got m ids name \<noteq> None \<longleftrightarrow>
     m name \<noteq> None \<or> (\<exists>k\<in>set ids. \<exists>res. got k = Some res \<and> fst res = name)"
  unfolding store_absent by auto

lemma fetched_has_entry: "fetched DownloadCF ob k = Some res \<Longrightarrow> obj_get ob k \<noteq> None"
  by (auto simp: fetched_def split: option.splits)

lemma same_fileIDs_calls:
  assumes "\<forall>k. map_option fileID (obj_get ob' k) = map_option fileID (obj_get ob k)"
  shows "download_calls ob' ids = download_calls ob ids"
proof -
  have "(case obj_get ob' k of None \<Rightarrow> []
         | Some data \<Rightarrow> [CallDownloadCF k (fileID data) ''dist/modcache/''])
      = (case obj_get ob k of None \<Rightarrow> []
         | Some data \<Rightarrow> [CallDownloadCF k (fileID data) ''dist/modcache/''])" for k
    using assms [rule_format, of k] by (cases "obj_get ob' k"; cases "obj_get ob k") auto
  then show ?thesis by (simp add: download_calls_def)
qed

lemma same_fileIDs_fetched:
  "\<forall>k. map_option fileID (obj_get ob' k) = map_option fileID (obj_get ob k) \<Longrightarrow>
   fetched DownloadCF ob' = fetched DownloadCF ob"
proof
  fix k
  assume a: "\<forall>k. map_option fileID (obj_get ob' k) = map_option fileID (obj_get ob k)"
  from a [rule_format, of k] show "fetched DownloadCF ob' k = fetched DownloadCF ob k"
    by (cases "obj_get ob' k"; cases "obj_get ob k") (auto simp: fetched_def)
qed

subsection \<open>The download loop\<close>

text \<open>
  The loop only appends calls of \<open>DownloadCF\<close> to the trace; it succeeds exactly when
  every scheduled download resolves, and it stops at the first one that rejects.
\<close>

lemma download_loop_trace:
  "download_loop DownloadCF ids s = (r, s') \<Longrightarrow>
   \<exists>calls. trace s' = trace s @ calls \<and> (\<forall>a\<in>set calls. is_download a)"
proof (induction ids arbitrary: s)
  case Nil
  then show ?case by simp
next
  case (Cons modID ids)
  show ?case
  proof (cases "obj_get (entries s) modID")
    case None
    with Cons.prems show ?thesis by simp
  next
    case (Some data)
    show ?thesis
    proof (cases "DownloadCF modID (fileID data)")
      case (Inl e)
      with Some Cons.prems show ?thesis by (auto simp: Let_def)
    next
      case (Inr res)
      obtain fileName bytes where res: "res = (fileName, bytes)" by (cases res)
      from Cons.prems Some Inr res Cons.IH [of _] show ?thesis
        by (fastforce simp: Let_def)
    qed
  qed
qed

lemma download_loop_all_ok:
  fixes DownloadCF :: "nat \<Rightarrow> nat \<Rightarrow> 'e + string \<times> 'b"
  assumes "\<forall>k\<in>set ids. fetched DownloadCF (entries s) k \<noteq> None"
  shows "\<exists>s'. download_loop DownloadCF ids s = (Inr (), s') \<and>
           trace s' = trace s @ download_calls (entries s) ids \<and>
           dir s' = store (fetched DownloadCF (entries s)) (dir s) ids \<and>
           (\<forall>k. obj_get (entries s') k = named (fetched DownloadCF (entries s)) (entries s) ids k)"
  using assms
proof (induction ids arbitrary: s)
  case Nil
  then show ?case
    by (simp add: download_calls_def store_def named_def split: option.splits)
next
  case (Cons modID ids)
  from Cons.prems obtain data fileName bytes
    where data: "obj_get (entries s) modID = Some data"
      and res: "DownloadCF modID (fileID data) = Inr (fileName, bytes)"
    by (auto simp: fetched_def split: option.splits sum.splits)
  define s2 where "s2 = s\<lparr>trace := trace s @ [CallDownloadCF modID (fileID data) ''dist/modcache/''],
      dir := (dir s)(fileName \<mapsto> bytes),
      entries := obj_set modID (data\<lparr>file := Some fileName\<rparr>) (entries s)\<rparr>"
  have step: "download_loop DownloadCF (modID # ids) s = download_loop DownloadCF ids s2"
    using data res by (simp add: s2_def Let_def)
  have same: "\<forall>k. map_option fileID (obj_get (entries s2) k) = map_option fileID (obj_get (entries s) k)"
    using data by (simp add: s2_def obj_get_set)
  note got = same_fileIDs_fetched [OF same, of DownloadCF]
  have "\<exists>s'. download_loop DownloadCF ids s2 = (Inr (), s') \<and>
           trace s' = trace s2 @ download_calls (entries s2) ids \<and>
           dir s' = store (fetched DownloadCF (entries s2)) (dir s2) ids \<and>
           (\<forall>k. obj_get (entries s') k = named (fetched DownloadCF (entries s2)) (entries s2) ids k)"
    using Cons.prems by (intro Cons.IH) (simp add: got)
  then obtain s' where s': "download_loop DownloadCF ids s2 = (Inr (), s')"
      "trace s' = trace s2 @ download_calls (entries s) ids"
      "dir s' = store (fetched DownloadCF (entries s)) (dir s2) ids"
      "\<And>k. obj_get (entries s') k = named (fetched DownloadCF (entries s)) (entries s2) ids k"
    by (auto simp: got same_fileIDs_calls [OF same])
  have me: "fetched DownloadCF (entries s) modID = Some (fileName, bytes)"
    using data res by (simp add: fetched_def)
  have t: "trace s' = trace s @ download_calls (entries s) (modID # ids)"
    using data by (simp add: s'(2) s2_def download_calls_def)
  have d: "dir s' = store (fetched DownloadCF (entries s)) (dir s) (modID # ids)"
    using me by (simp add: s'(3) s2_def store_def)
  have e: "obj_get (entries s') k = named (fetched DownloadCF (entries s)) (entries s) (modID # ids) k" for k
    using data me by (auto simp: s'(4) s2_def named_def obj_get_set split: option.splits)
  from step s'(1) t d e show ?case by auto
qed

lemma download_loop_append:
  "download_loop DownloadCF (xs @ ys) s =
     (case download_loop DownloadCF xs s of
        (Inl e, s1) \<Rightarrow> (Inl e, s1)
      | (Inr u, s1) \<Rightarrow> download_loop DownloadCF ys s1)"
proof (induction xs arbitrary: s)
  case Nil
  then show ?case by simp
next
  case (Cons modID xs)
  show ?case
  proof (cases "obj_get (entries s) modID")
    case None
    then show ?thesis by simp
  next
    case (Some data)
    show ?thesis
    proof (cases "DownloadCF modID (fileID data)")
      case (Inl e)
      with Some show ?thesis by (simp add: Let_def)
    next
      case (Inr res)
      obtain fileName bytes where "res = (fileName, bytes)" by (cases res)
      with Some Inr Cons.IH show ?thesis by (simp add: Let_def)
    qed
  qed
qed

lemma download_loop_Inr:
  "download_loop DownloadCF ids s = (Inr u, s') \<Longrightarrow>
   \<forall>k\<in>set ids. fetched DownloadCF (entries s) k \<noteq> None"
proof (induction ids arbitrary: s)
  case Nil
  then show ?case by simp
next
  case (Cons modID ids)
  from Cons.prems obtain data where data: "obj_get (entries s) modID = Some data"
    by (cases "obj_get (entries s) modID") auto
  from Cons.prems data obtain fileName bytes where res: "DownloadCF modID (fileID data) = Inr (fileName, bytes)"
    by (cases "DownloadCF modID (fileID data)") (auto simp: Let_def)
  define s2 where "s2 = s\<lparr>trace := trace s @ [CallDownloadCF modID (fileID data) ''dist/modcache/''],
      dir := (dir s)(fileName \<mapsto> bytes),
      entries := obj_set modID (data\<lparr>file := Some fileName\<rparr>) (entries s)\<rparr>"
  have step: "download_loop DownloadCF (modID # ids) s = download_loop DownloadCF ids s2"
    using data res by (simp add: s2_def Let_def)
  have same: "\<forall>k. map_option fileID (obj_get (entries s2) k) = map_option fileID (obj_get (entries s) k)"
    using data by (simp add: s2_def obj_get_set)
  from Cons.prems have "download_loop DownloadCF ids s2 = (Inr u, s')"
    by (simp only: step)
  then have "\<forall>k\<in>set ids. fetched DownloadCF (entries s2) k \<noteq> None"
    by (rule Cons.IH)
  then show ?case
    using data res by (simp add: same_fileIDs_fetched [OF same, of DownloadCF]) (simp add: fetched_def)
qed

lemma download_loop_frame:
  "download_loop DownloadCF ids s = (r, s') \<Longrightarrow>
   (\<exists>calls. trace s' = trace s @ calls \<and>
      (\<forall>a\<in>set calls. \<exists>k\<in>set ids. \<exists>f. a = CallDownloadCF k f ''dist/modcache/'')) \<and>
   (\<forall>name. (\<forall>k\<in>set ids. \<forall>res. fetched DownloadCF (entries s) k = Some res \<longrightarrow> fst res \<noteq> name)
      \<longrightarrow> dir s' name = dir s name)"
proof (induction ids arbitrary: s)
  case Nil
  then show ?case by simp
next
  case (Cons modID ids)
  show ?case
  proof (cases "obj_get (entries s) modID")
    case None
    with Cons.prems show ?thesis by simp
  next
    case (Some data)
    show ?thesis
    proof (cases "DownloadCF modID (fileID data)")
      case (Inl e)
      with Some Cons.prems show ?thesis by (auto simp: Let_def)
    next
      case (Inr res)
      obtain fileName bytes where res: "res = (fileName, bytes)" by (cases res)
      define s2 where "s2 = s\<lparr>trace := trace s @ [CallDownloadCF modID (fileID data) ''dist/modcache/''],
        dir := (dir s)(fileName \<mapsto> bytes),
        entries := obj_set modID (data\<lparr>file := Some fileName\<rparr>) (entries s)\<rparr>"
      have step: "download_loop DownloadCF (modID # ids) s = download_loop DownloadCF ids s2"
        using Some Inr res by (simp add: s2_def Let_def)
      have same: "\<forall>k. map_option fileID (obj_get (entries s2) k) = map_option fileID (obj_get (entries s) k)"
        using Some by (simp add: s2_def obj_get_set)
      note got = same_fileIDs_fetched [OF same, of DownloadCF]
      have me: "fetched DownloadCF (entries s) modID = Some (fileName, bytes)"
        using Some Inr res by (simp add: fetched_def)
      from Cons.prems have "download_loop DownloadCF ids s2 = (r, s')"
        by (simp only: step)
      from Cons.IH [OF this] obtain calls
        where calls: "trace s' = trace s2 @ calls"
          "\<forall>a\<in>set calls. \<exists>k\<in>set ids. \<exists>f. a = CallDownloadCF k f ''dist/modcache/''"
          and frame: "\<And>name. (\<forall>k\<in>set ids. \<forall>res. fetched DownloadCF (entries s) k = Some res \<longrightarrow> fst res \<noteq> name)
            \<Longrightarrow> dir s' name = dir s2 name"
        unfolding got by blast
      have 1: "trace s' = trace s @ (CallDownloadCF modID (fileID data) ''dist/modcache/'' # calls)"
        by (simp add: calls(1) s2_def)
      have 2: "\<forall>a\<in>set (CallDownloadCF modID (fileID data) ''dist/modcache/'' # calls).
          \<exists>k\<in>set (modID # ids). \<exists>f. a = CallDownloadCF k f ''dist/modcache/''"
        using calls(2) by auto
      have 3: "dir s' name = dir s name"
        if "\<forall>k\<in>set (modID # ids). \<forall>res. fetched DownloadCF (entries s) k = Some res \<longrightarrow> fst res \<noteq> name"
        for name
      proof -
        from that me have "fileName \<noteq> name" by auto
        moreover from that have "dir s' name = dir s2 name"
          by (intro frame) simp
        ultimately show ?thesis by (simp add: s2_def)
      qed
      from 1 2 3 show ?thesis by blast
    qed
  qed
qed

subsection \<open>The whole run\<close>

text \<open>
  The target after the manifest is read: its trace, its result and what it leaves on
  disk, for a run that succeeds and for one that stops.
\<close>

lemma run_after_plan:
  assumes "manifest_json w = Json files"
    and "plan files (cache_json w) = Inr d"
    and "download_loop DownloadCF (mIdToDownload d) (after_diff w d) = (r, s)"
  shows "DownloadModsTarget DownloadCF w =
     (case r of
        Inl e \<Rightarrow> (Inl e, w\<lparr>modcache := dir s\<rparr>, trace s)
      | Inr u \<Rightarrow> (Inr (), w\<lparr>modcache := dir s, cache_json := Json (entries s)\<rparr>,
                   trace s @ [WriteFileSync ''dist/cache.json'' (entries s)]))"
  using assms by (simp add: DownloadModsTarget_def split: sum.splits)

lemma run_no_manifest:
  assumes "DownloadModsTarget DownloadCF w = (r, w', tr)" "\<forall>files. manifest_json w \<noteq> Json files"
  shows "tr = [] \<and> w' = w \<and> (\<exists>e. r = Inl (Thrown e))"
  using assms by (cases "manifest_json w") (auto simp: DownloadModsTarget_def)

lemma run_plan_thrown:
  assumes "DownloadModsTarget DownloadCF w = (r, w', tr)" "manifest_json w = Json files"
    and "plan files (cache_json w) = Inl (e, d)"
  shows "tr = MkdirSync ''dist/modcache'' # rm_actions (removed d) \<and> r = Inl (Thrown e)
     \<and> cache_json w' = cache_json w"
  using assms by (auto simp: DownloadModsTarget_def after_diff_def)

lemma run_trace_shape:
  assumes run: "DownloadModsTarget DownloadCF w = (r, w', tr)"
    and files: "manifest_json w = Json files"
    and d: "plan files (cache_json w) = Inr d"
  shows "\<exists>calls wr.
       tr = MkdirSync ''dist/modcache'' # rm_actions (removed d) @ calls @ wr \<and>
       (\<forall>a\<in>set calls. is_download a) \<and>
       (wr = [] \<and> cache_json w' = cache_json w \<and> r \<noteq> Inr ()
        \<or> r = Inr () \<and> (\<exists>c. cache_json w' = Json c \<and> wr = [WriteFileSync ''dist/cache.json'' c]))"
proof -
  obtain r0 s where loop: "download_loop DownloadCF (mIdToDownload d) (after_diff w d) = (r0, s)"
    by (cases "download_loop DownloadCF (mIdToDownload d) (after_diff w d)")
  from download_loop_trace [OF loop] obtain calls
    where calls: "trace s = MkdirSync ''dist/modcache'' # rm_actions (removed d) @ calls"
      "\<forall>a\<in>set calls. is_download a"
    by (auto simp: after_diff_def)
  show ?thesis
  proof (cases r0)
    case (Inl e)
    with run_after_plan [OF files d loop] run
    have "tr = MkdirSync ''dist/modcache'' # rm_actions (removed d) @ calls @ []"
      "cache_json w' = cache_json w" "r \<noteq> Inr ()"
      by (auto simp: calls)
    with calls(2) show ?thesis
      by (intro exI [of _ calls] exI [of _ "[]"]) simp
  next
    case (Inr u)
    with run_after_plan [OF files d loop] run
    have "tr = MkdirSync ''dist/modcache'' # rm_actions (removed d) @ calls
                 @ [WriteFileSync ''dist/cache.json'' (entries s)]"
      "r = Inr ()" "cache_json w' = Json (entries s)"
      by (auto simp: calls)
    with calls(2) show ?thesis
      by (intro exI [of _ calls] exI [of _ "[WriteFileSync ''dist/cache.json'' (entries s)]"]) simp
  qed
qed

lemma run_success:
  assumes files: "manifest_json w = Json files"
    and d: "plan files (cache_json w) = Inr d"
    and run: "DownloadModsTarget DownloadCF w = (Inr u, w', tr)"
  shows "\<exists>c. tr = MkdirSync ''dist/modcache'' # rm_actions (removed d)
                  @ download_calls (dataKeys d) (mIdToDownload d)
                  @ [WriteFileSync ''dist/cache.json'' c] \<and>
             cache_json w' = Json c \<and> manifest_json w' = manifest_json w \<and>
             (\<forall>k. obj_get c k = named (fetched DownloadCF (dataKeys d)) (dataKeys d) (mIdToDownload d) k) \<and>
             modcache w' = store (fetched DownloadCF (dataKeys d)) (rm_files (removed d) (modcache w))
                             (mIdToDownload d) \<and>
             (\<forall>k\<in>set (mIdToDownload d). fetched DownloadCF (dataKeys d) k \<noteq> None)"
proof -
  obtain r0 s where loop: "download_loop DownloadCF (mIdToDownload d) (after_diff w d) = (r0, s)"
    by (cases "download_loop DownloadCF (mIdToDownload d) (after_diff w d)")
  from run_after_plan [OF files d loop] run obtain u0 where r0: "r0 = Inr u0"
    by (cases r0) auto
  from download_loop_Inr [OF loop [unfolded r0]]
  have ok: "\<forall>k\<in>set (mIdToDownload d). fetched DownloadCF (dataKeys d) k \<noteq> None"
    by (simp add: after_diff_def)
  then have "\<forall>k\<in>set (mIdToDownload d). fetched DownloadCF (entries (after_diff w d)) k \<noteq> None"
    by (simp add: after_diff_def)
  from download_loop_all_ok [OF this] loop
  have s: "trace s = MkdirSync ''dist/modcache'' # rm_actions (removed d)
                  @ download_calls (dataKeys d) (mIdToDownload d)"
    "dir s = store (fetched DownloadCF (dataKeys d)) (rm_files (removed d) (modcache w)) (mIdToDownload d)"
    "\<And>k. obj_get (entries s) k = named (fetched DownloadCF (dataKeys d)) (dataKeys d) (mIdToDownload d) k"
    by (auto simp: after_diff_def)
  from run_after_plan [OF files d loop] run r0
  have "tr = trace s @ [WriteFileSync ''dist/cache.json'' (entries s)]"
    "w' = w\<lparr>modcache := dir s, cache_json := Json (entries s)\<rparr>"
    by auto
  with s ok show ?thesis
    by (intro exI [of _ "entries s"]) simp
qed

lemma run_all_ok:
  assumes files: "manifest_json w = Json files"
    and d: "plan files (cache_json w) = Inr d"
    and ok: "\<forall>k\<in>set (mIdToDownload d). fetched DownloadCF (dataKeys d) k \<noteq> None"
  shows "\<exists>w' tr. DownloadModsTarget DownloadCF w = (Inr (), w', tr)"
proof -
  from ok have "\<forall>k\<in>set (mIdToDownload d). fetched DownloadCF (entries (after_diff w d)) k \<noteq> None"
    by (simp add: after_diff_def)
  from download_loop_all_ok [OF this] obtain s
    where "download_loop DownloadCF (mIdToDownload d) (after_diff w d) = (Inr (), s)"
    by blast
  from run_after_plan [OF files d this] show ?thesis by simp
qed

lemma run_first_failure:
  assumes files: "manifest_json w = Json files"
    and d: "plan files (cache_json w) = Inr d"
    and ids: "mIdToDownload d = before @ b # later"
    and ok: "\<forall>k\<in>set before. fetched DownloadCF (dataKeys d) k \<noteq> None"
    and b: "obj_get (dataKeys d) b = Some data" "DownloadCF b (fileID data) = Inl x"
  shows "DownloadModsTarget DownloadCF w =
     (Inl (Rejected x),
      w\<lparr>modcache := store (fetched DownloadCF (dataKeys d)) (rm_files (removed d) (modcache w)) before\<rparr>,
      MkdirSync ''dist/modcache'' # rm_actions (removed d) @ download_calls (dataKeys d) (before @ [b]))"
proof -
  from ok have "\<forall>k\<in>set before. fetched DownloadCF (entries (after_diff w d)) k \<noteq> None"
    by (simp add: after_diff_def)
  from download_loop_all_ok [OF this] obtain s
    where s: "download_loop DownloadCF before (after_diff w d) = (Inr (), s)"
      "trace s = MkdirSync ''dist/modcache'' # rm_actions (removed d) @ download_calls (dataKeys d) before"
      "dir s = store (fetched DownloadCF (dataKeys d)) (rm_files (removed d) (modcache w)) before"
      "\<And>k. obj_get (entries s) k = named (fetched DownloadCF (dataKeys d)) (dataKeys d) before k"
    by (auto simp: after_diff_def)
  from s(4) [of b] b(1) obtain data' where data': "obj_get (entries s) b = Some data'" "fileID data' = fileID data"
    by (auto simp: named_def split: if_splits)
  have "download_loop DownloadCF (b # later) s
      = (Inl (Rejected x), s\<lparr>trace := trace s @ [CallDownloadCF b (fileID data) ''dist/modcache/'']\<rparr>)"
    using data' b(2) by (simp add: Let_def)
  then have loop: "download_loop DownloadCF (mIdToDownload d) (after_diff w d)
      = (Inl (Rejected x), s\<lparr>trace := trace s @ [CallDownloadCF b (fileID data) ''dist/modcache/'']\<rparr>)"
    unfolding ids download_loop_append s(1) by simp
  have "download_calls (dataKeys d) (before @ [b])
      = download_calls (dataKeys d) before @ [CallDownloadCF b (fileID data) ''dist/modcache/'']"
    using b(1) by (simp add: download_calls_def)
  with run_after_plan [OF files d loop] s(2,3) show ?thesis
    by simp
qed

lemma run_no_write:
  assumes "DownloadModsTarget DownloadCF w = (r, w', tr)"
  shows "(r = Inr () \<longrightarrow> (\<exists>c pre. cache_json w' = Json c \<and> tr = pre @ [WriteFileSync ''dist/cache.json'' c]
            \<and> filter is_write pre = []))
       \<and> (r \<noteq> Inr () \<longrightarrow> filter is_write tr = [] \<and> cache_json w' = cache_json w)"
proof (cases "manifest_json w")
  case Missing
  with run_no_manifest [OF assms] show ?thesis by auto
next
  case Unparsable
  with run_no_manifest [OF assms] show ?thesis by auto
next
  case (Json files)
  show ?thesis
  proof (cases "plan files (cache_json w)")
    case (Inl ed)
    obtain e d where ed: "ed = (e, d)" by (cases ed)
    have "filter is_write (rm_actions (removed d)) = []"
      by (induction "removed d") (auto simp: rm_actions_def)
    with run_plan_thrown [OF assms Json Inl [unfolded ed]] show ?thesis
      by simp
  next
    case (Inr d)
    from run_trace_shape [OF assms Json Inr] obtain calls wr
      where tr: "tr = MkdirSync ''dist/modcache'' # rm_actions (removed d) @ calls @ wr"
        and calls: "\<forall>a\<in>set calls. is_download a"
        and wr: "wr = [] \<and> cache_json w' = cache_json w \<and> r \<noteq> Inr ()
          \<or> r = Inr () \<and> (\<exists>c. cache_json w' = Json c \<and> wr = [WriteFileSync ''dist/cache.json'' c])"
      by blast
    have 1: "filter is_write (rm_actions (removed d)) = []"
      by (induction "removed d") (auto simp: rm_actions_def)
    have 2: "filter is_write calls = []"
      unfolding filter_empty_conv
    proof
      fix a assume "a \<in> set calls"
      with calls show "\<not> is_write a" by (simp add: download_not_write)
    qed
    from wr show ?thesis
    proof (elim disjE conjE exE)
      assume "wr = []" "cache_json w' = cache_json w" "r \<noteq> Inr ()"
      then show ?thesis by (simp add: tr 1 2)
    next
      fix c assume c: "r = Inr ()" "cache_json w' = Json c" "wr = [WriteFileSync ''dist/cache.json'' c]"
      have "tr = (MkdirSync ''dist/modcache'' # rm_actions (removed d) @ calls) @ [WriteFileSync ''dist/cache.json'' c]"
        by (simp add: tr c)
      moreover have "filter is_write (MkdirSync ''dist/modcache'' # rm_actions (removed d) @ calls) = []"
        by (simp add: 1 2)
      ultimately show ?thesis
        using c by blast
    qed
  qed
qed

lemma run_frame:
  assumes files: "manifest_json w = Json files"
    and d: "plan files (cache_json w) = Inr d"
    and run: "DownloadModsTarget DownloadCF w = (r, w', tr)"
  shows "(\<forall>k f dest. CallDownloadCF k f dest \<in> set tr \<longrightarrow> k \<in> set (mIdToDownload d)) \<and>
         (\<forall>name. name \<notin> snd ` set (removed d) \<and>
            (\<forall>k\<in>set (mIdToDownload d). \<forall>res. fetched DownloadCF (dataKeys d) k = Some res \<longrightarrow> fst res \<noteq> name)
            \<longrightarrow> modcache w' name = modcache w name)"
proof -
  obtain r0 s where loop: "download_loop DownloadCF (mIdToDownload d) (after_diff w d) = (r0, s)"
    by (cases "download_loop DownloadCF (mIdToDownload d) (after_diff w d)")
  from download_loop_frame [OF loop] obtain calls
    where calls: "trace s = MkdirSync ''dist/modcache'' # rm_actions (removed d) @ calls"
      "\<forall>a\<in>set calls. \<exists>k\<in>set (mIdToDownload d). \<exists>f. a = CallDownloadCF k f ''dist/modcache/''"
      and frame: "\<And>name. (\<forall>k\<in>set (mIdToDownload d). \<forall>res. fetched DownloadCF (dataKeys d) k = Some res \<longrightarrow> fst res \<noteq> name)
        \<Longrightarrow> dir s name = rm_files (removed d) (modcache w) name"
    by (auto simp: after_diff_def)
  from run_after_plan [OF files d loop] run
  have tr: "tr = trace s \<or> (\<exists>c. tr = trace s @ [WriteFileSync ''dist/cache.json'' c])"
    and w': "modcache w' = dir s"
    by (cases r0; auto)+
  have 1: "k \<in> set (mIdToDownload d)" if "CallDownloadCF k f dest \<in> set tr" for k f dest
  proof -
    from that tr have "CallDownloadCF k f dest \<in> set calls"
      by (auto simp: calls(1) rm_actions_no_call)
    with calls(2) show ?thesis by auto
  qed
  have 2: "modcache w' name = modcache w name"
    if "name \<notin> snd ` set (removed d)"
      "\<forall>k\<in>set (mIdToDownload d). \<forall>res. fetched DownloadCF (dataKeys d) k = Some res \<longrightarrow> fst res \<noteq> name"
    for name
    using frame [OF that(2)] that(1) by (simp add: w' rm_files_apply)
  from 1 2 show ?thesis by blast
qed

subsection \<open>The run on a manifest of any shape\<close>

text \<open>
  The download loop only adds calls to the trace, so every run that parsed its manifest
  starts with \<open>mkdirSync\<close>; a run that could not read the manifest does nothing.
\<close>

lemma download_loop_any_trace:
  "\<exists>more. trace_any (snd (download_loop_any DownloadCF ids s)) = trace_any s @ more"
proof (induction ids arbitrary: s)
  case Nil
  show ?case by simp
next
  case (Cons modID rest)
  show ?case
  proof (cases "prop_get (entries_any s) modID")
    case None
    then show ?thesis by simp
  next
    case (Some data)
    let ?s1 = "s\<lparr>trace_any := trace_any s @ [CallDownloadCF_any modID (fileID_val data) ''dist/modcache/'']\<rparr>"
    show ?thesis
    proof (cases "DownloadCF modID (fileID_val data)")
      case (Inl e)
      with Some show ?thesis by simp
    next
      case (Inr res)
      obtain fileName bytes where res: "res = (fileName, bytes)" by (cases res)
      let ?s2 = "?s1\<lparr>dir_any := DownloadCF_stores fileName bytes (dir_any ?s1),
                     entries_any := prop_set modID (data\<lparr>file_val := JStr fileName\<rparr>) (entries_any ?s1)\<rparr>"
      from Cons.IH [of ?s2] obtain more
        where "trace_any (snd (download_loop_any DownloadCF rest ?s2)) = trace_any ?s2 @ more" ..
      with Some Inr res show ?thesis by (simp add: Let_def)
    qed
  qed
qed

lemma run_any_mkdir_first:
  assumes "manifest_value v = Json manifest"
  shows "\<exists>rest. snd (snd (DownloadModsTarget_any DownloadCF v)) = MkdirSync_any ''dist/modcache'' # rest"
proof (cases "plan_any manifest (cache_value v)")
  case (Inl ed)
  obtain e d where "ed = (e, d)" by (cases ed)
  with Inl assms show ?thesis
    by (simp add: DownloadModsTarget_any_def after_diff_any_def)
next
  case (Inr d)
  obtain r s where rs: "download_loop_any DownloadCF (mIdToDownload_any d) (after_diff_any v d) = (r, s)"
    by (cases "download_loop_any DownloadCF (mIdToDownload_any d) (after_diff_any v d)")
  from download_loop_any_trace [of DownloadCF "mIdToDownload_any d" "after_diff_any v d"] rs
  obtain more where "trace_any s = trace_any (after_diff_any v d) @ more"
    by auto
  then have "\<exists>rest. trace_any s = MkdirSync_any ''dist/modcache'' # rest"
    by (simp add: after_diff_any_def)
  with Inr assms rs show ?thesis
    by (cases r) (auto simp: DownloadModsTarget_any_def)
qed

lemma run_any_no_manifest:
  assumes "manifest_value v = Missing \<or> manifest_value v = Unparsable"
  shows "\<exists>e. DownloadModsTarget_any DownloadCF v = (Inl (Thrown e), v, [])"
  using assms by (auto simp: DownloadModsTarget_any_def)

section \<open>The claims\<close>

subsection \<open>C1: a failed download ends the run\<close>

text \<open>
  Claim C1 says that a failed fetch of one artifact does not abort the run. On a first
  run with mods 1, 2 and 3, where the download of mod 2 is rejected, the run rejects,
  never calls \<open>DownloadCF\<close> for mod 3, and leaves \<open>dist/cache.json\<close> missing, so
  no entry for mod 1 or mod 3 is persisted.
\<close>

theorem fetch_failure_continues_counterexample:
  "fst (DownloadModsTarget (jar_but 2) world2) = Inl (Rejected ()) \<and>
   cache_json (fst (snd (DownloadModsTarget (jar_but 2) world2))) = Missing \<and>
   snd (snd (DownloadModsTarget (jar_but 2) world2))
     = [MkdirSync ''dist/modcache'', CallDownloadCF 1 10 ''dist/modcache/'',
        CallDownloadCF 2 20 ''dist/modcache/'']"
  by code_simp

text \<open>
  Claim C1, amended. A failure of one artifact's fetch aborts the run: when the
  downloads scheduled before mod \<open>b\<close> succeed and the download of \<open>b\<close> is rejected,
  the run rejects with that very error, the calls of \<open>DownloadCF\<close> are those up to
  and including \<open>b\<close> (nothing scheduled later is attempted), the files fetched before
  \<open>b\<close> are in the cache directory, and \<open>dist/cache.json\<close> is not written: the
  persisted record stays what it was.
\<close>

theorem fetch_failure_aborts:
  assumes "manifest_json w = Json files"
    and "plan files (cache_json w) = Inr d"
    and "mIdToDownload d = before @ b # later"
    and "\<forall>k\<in>set before. fetched DownloadCF (dataKeys d) k \<noteq> None"
    and "obj_get (dataKeys d) b = Some data" "DownloadCF b (fileID data) = Inl x"
  shows "\<exists>w' tr. DownloadModsTarget DownloadCF w = (Inl (Rejected x), w', tr) \<and>
           cache_json w' = cache_json w \<and>
           filter is_write tr = [] \<and>
           filter is_download tr = download_calls (dataKeys d) (before @ [b]) \<and>
           modcache w' = store (fetched DownloadCF (dataKeys d)) (rm_files (removed d) (modcache w)) before"
proof -
  let ?w' = "w\<lparr>modcache := store (fetched DownloadCF (dataKeys d)) (rm_files (removed d) (modcache w)) before\<rparr>"
  let ?tr = "MkdirSync ''dist/modcache'' # rm_actions (removed d) @ download_calls (dataKeys d) (before @ [b])"
  have run: "DownloadModsTarget DownloadCF w = (Inl (Rejected x), ?w', ?tr)"
    using assms by (rule run_first_failure)
  from run_no_write [OF run] have "filter is_write ?tr = []"
    by simp
  moreover have "filter is_download ?tr = download_calls (dataKeys d) (before @ [b])"
    by (simp add: rm_actions_no_download download_calls_are_downloads)
  ultimately show ?thesis
    using run by (intro exI [of _ ?w'] exI [of _ ?tr]) simp
qed

theorem fetch_failure_aborts_witness:
  "manifest_json world2 = Json [entry 1 10 True, entry 2 20 True, entry 3 30 True] \<and>
   plan [entry 1 10 True, entry 2 20 True, entry 3 30 True] (cache_json world2)
     = Inr (remap [entry 1 10 True, entry 2 20 True, entry 3 30 True]) \<and>
   mIdToDownload (remap [entry 1 10 True, entry 2 20 True, entry 3 30 True]) = [1] @ 2 # [3] \<and>
   fetched (jar_but 2) (dataKeys (remap [entry 1 10 True, entry 2 20 True, entry 3 30 True])) 1
     = Some (''m.jar'', 10) \<and>
   jar_but 2 2 20 = Inl () \<and>
   (\<exists>w' tr. DownloadModsTarget (jar_but 2) world2 = (Inl (Rejected ()), w', tr) \<and>
      cache_json w' = Missing \<and> filter is_write tr = [] \<and>
      filter is_download tr
        = [CallDownloadCF 1 10 ''dist/modcache/'', CallDownloadCF 2 20 ''dist/modcache/''])"
proof -
  let ?files = "[entry 1 10 True, entry 2 20 True, entry 3 30 True]"
  have h1: "manifest_json world2 = Json ?files"
    by (simp add: world2_def)
  have h2: "plan ?files (cache_json world2) = Inr (remap ?files)"
    by (simp add: world2_def plan_def)
  have h3: "mIdToDownload (remap ?files) = [1] @ 2 # [3]"
    by code_simp
  have got: "fetched (jar_but 2) (dataKeys (remap ?files)) 1 = Some (''m.jar'', 10)"
    by code_simp
  then have h4: "\<forall>k\<in>set [1]. fetched (jar_but 2) (dataKeys (remap ?files)) k \<noteq> None"
    by simp
  have h5: "obj_get (dataKeys (remap ?files)) 2 = Some \<lparr>fileID = 20, required = True, file = None\<rparr>"
    by code_simp
  have h6: "jar_but 2 2 (fileID \<lparr>fileID = 20, required = True, file = None\<rparr>) = Inl ()"
    by code_simp
  have calls: "download_calls (dataKeys (remap ?files)) ([1] @ [2])
      = [CallDownloadCF 1 10 ''dist/modcache/'', CallDownloadCF 2 20 ''dist/modcache/'']"
    by code_simp
  have miss: "cache_json world2 = Missing"
    by (simp add: world2_def)
  from fetch_failure_aborts [OF h1 h2 h3 h4 h5 h6] calls miss
  have "\<exists>w' tr. DownloadModsTarget (jar_but 2) world2 = (Inl (Rejected ()), w', tr) \<and>
      cache_json w' = Missing \<and> filter is_write tr = [] \<and>
      filter is_download tr
        = [CallDownloadCF 1 10 ''dist/modcache/'', CallDownloadCF 2 20 ''dist/modcache/'']"
    by auto
  moreover have "jar_but 2 2 20 = Inl ()"
    by code_simp
  ultimately show ?thesis
    using h1 h2 h3 got by simp
qed

subsection \<open>C2: the diff partitions the project ids\<close>

text \<open>
  Claim C2. With a previous record \<open>oldData\<close> and a manifest \<open>files\<close>, the diff always
  completes, issues at most one deletion and schedules at most one download per project
  id, and treats each id by its case: an id of the record that the manifest no longer
  lists gets a deletion of its file and no download, and leaves the record; an id the
  manifest lists and the record lacks gets a download and no deletion; an id in both
  whose file id differs gets the deletion of its old file and a download, its record
  being replaced by the manifest's file id with no file name; an id in both with the
  same file id gets neither, and keeps its record.
\<close>

theorem diff_partitions_ids:
  "\<exists>d. diff files oldData = Inr d \<and>
     distinct (map fst (removed d)) \<and> distinct (mIdToDownload d) \<and>
     (\<forall>pid.
       (obj_get oldData pid \<noteq> None \<and> pid \<notin> projectID ` set files \<longrightarrow>
          rm_of oldData pid \<in> set (removed d) \<and> pid \<notin> set (mIdToDownload d)
          \<and> obj_get (dataKeys d) pid = None) \<and>
       (obj_get oldData pid = None \<and> pid \<in> projectID ` set files \<longrightarrow>
          pid \<notin> fst ` set (removed d) \<and> pid \<in> set (mIdToDownload d)
          \<and> obj_get (dataKeys d) pid = map_option copy_new (obj_get (newData_of files) pid)) \<and>
       (\<forall>od nd. obj_get oldData pid = Some od \<and> obj_get (newData_of files) pid = Some nd
            \<and> fileID od \<noteq> fileID nd \<longrightarrow>
          (pid, template (file od)) \<in> set (removed d) \<and> pid \<in> set (mIdToDownload d)
          \<and> obj_get (dataKeys d) pid = Some (copy_new nd)) \<and>
       (\<forall>od nd. obj_get oldData pid = Some od \<and> obj_get (newData_of files) pid = Some nd
            \<and> fileID od = fileID nd \<longrightarrow>
          pid \<notin> fst ` set (removed d) \<and> pid \<notin> set (mIdToDownload d)
          \<and> obj_get (dataKeys d) pid = Some od))"
proof -
  let ?new = "newData_of files"
  let ?A = "filter (\<lambda>pid. pid \<notin> set (Object_keys ?new)) (Object_keys oldData)"
  let ?B = "filter (\<lambda>x. x \<notin> set (Object_keys oldData)) (Object_keys ?new)"
  let ?C = "filter (changed ?new oldData) (Object_keys oldData)"
  from diff_closed_form [of files oldData]
  obtain d where d: "diff files oldData = Inr d"
    "mIdToDownload d = ?B @ ?C" "removed d = map (rm_of oldData) (?A @ ?C)"
    "\<And>k. obj_get (dataKeys d) k = merged ?new oldData k"
    by blast
  have fst_rm: "map fst (removed d) = ?A @ ?C"
    by (simp add: d(3) comp_def rm_of_def)
  have inA: "k \<in> set ?A \<longleftrightarrow> obj_get oldData k \<noteq> None \<and> obj_get ?new k = None" for k
    by (auto simp: in_Object_keys)
  have inB: "k \<in> set ?B \<longleftrightarrow> obj_get oldData k = None \<and> obj_get ?new k \<noteq> None" for k
    by (auto simp: in_Object_keys)
  have inC: "k \<in> set ?C \<longleftrightarrow> changed ?new oldData k" for k
    by (auto simp: in_Object_keys changed_def split: option.splits)
  have new_None: "obj_get ?new k = None \<longleftrightarrow> k \<notin> projectID ` set files" for k
    by (simp add: obj_get_newData_of desired_None_iff)
  have dist_rm: "distinct (map fst (removed d))"
    unfolding fst_rm using inA inC
    by (auto simp: distinct_Object_keys changed_def simp del: set_filter split: option.splits)
  have dist_dl: "distinct (mIdToDownload d)"
    unfolding d(2) using inB inC
    by (auto simp: distinct_Object_keys changed_def simp del: set_filter split: option.splits)
  have c1: "rm_of oldData pid \<in> set (removed d) \<and> pid \<notin> set (mIdToDownload d)
        \<and> obj_get (dataKeys d) pid = None"
    if "obj_get oldData pid \<noteq> None" "pid \<notin> projectID ` set files" for pid
  proof -
    from that have "pid \<in> set ?A" "pid \<notin> set ?B" "pid \<notin> set ?C"
      unfolding inA inB inC using new_None [of pid] by (auto simp: changed_def split: option.splits)
    then show ?thesis
      using that new_None [of pid] unfolding d(2,3) d(4) by (auto simp: merged_def simp del: set_filter)
  qed
  have in_rm: "k \<in> fst ` set (removed d) \<longleftrightarrow> k \<in> set ?A \<or> k \<in> set ?C" for k
    using arg_cong [OF fst_rm, of set] by (simp del: set_filter)
  have c2: "pid \<notin> fst ` set (removed d) \<and> pid \<in> set (mIdToDownload d)
        \<and> obj_get (dataKeys d) pid = map_option copy_new (obj_get ?new pid)"
    if "obj_get oldData pid = None" "pid \<in> projectID ` set files" for pid
  proof -
    from that have "pid \<notin> set ?A" "pid \<in> set ?B" "pid \<notin> set ?C"
      unfolding inA inB inC using new_None [of pid] by (auto simp: changed_def split: option.splits)
    then show ?thesis
      using that unfolding in_rm d(2) d(4) by (auto simp: merged_def simp del: set_filter split: option.splits)
  qed
  have c3: "(pid, template (file od)) \<in> set (removed d) \<and> pid \<in> set (mIdToDownload d)
        \<and> obj_get (dataKeys d) pid = Some (copy_new nd)"
    if "obj_get oldData pid = Some od" "obj_get ?new pid = Some nd" "fileID od \<noteq> fileID nd" for pid od nd
  proof -
    from that have "pid \<in> set ?C"
      unfolding inC by (simp add: changed_def)
    moreover have "rm_of oldData pid = (pid, template (file od))"
      using that by (simp add: rm_of_def)
    ultimately show ?thesis
      using that unfolding d(2,3) d(4) by (force simp: merged_def simp del: set_filter)
  qed
  have c4: "pid \<notin> fst ` set (removed d) \<and> pid \<notin> set (mIdToDownload d)
        \<and> obj_get (dataKeys d) pid = Some od"
    if "obj_get oldData pid = Some od" "obj_get ?new pid = Some nd" "fileID od = fileID nd" for pid od nd
  proof -
    from that have "pid \<notin> set ?A" "pid \<notin> set ?B" "pid \<notin> set ?C"
      unfolding inA inB inC by (auto simp: changed_def)
    then show ?thesis
      using that unfolding in_rm d(2) d(4) by (auto simp: merged_def simp del: set_filter)
  qed
  show ?thesis
    by (intro exI [of _ d] conjI impI allI; (elim conjE)?)
       (use d(1) dist_rm dist_dl c1 c2 c3 c4 in \<open>simp_all\<close>)
qed


theorem diff_partitions_ids_witness:
  "\<exists>d. diff [\<lparr>fileID = 30, required = True, projectID = 3\<rparr>,
              \<lparr>fileID = 10, required = True, projectID = 1\<rparr>,
              \<lparr>fileID = 50, required = False, projectID = 5\<rparr>]
             [(1, \<lparr>fileID = 10, required = False, file = Some ''a.jar''\<rparr>),
              (2, \<lparr>fileID = 20, required = True, file = Some ''b.jar''\<rparr>),
              (3, \<lparr>fileID = 29, required = True, file = Some ''c.jar''\<rparr>)]
          = Inr d \<and>
     (2, ''b.jar'') \<in> set (removed d) \<and> 2 \<notin> set (mIdToDownload d) \<and>
     5 \<notin> fst ` set (removed d) \<and> 5 \<in> set (mIdToDownload d) \<and>
     (3, ''c.jar'') \<in> set (removed d) \<and> 3 \<in> set (mIdToDownload d) \<and>
     obj_get (dataKeys d) 3 = Some \<lparr>fileID = 30, required = True, file = None\<rparr> \<and>
     1 \<notin> fst ` set (removed d) \<and> 1 \<notin> set (mIdToDownload d) \<and>
     obj_get (dataKeys d) 1 = Some \<lparr>fileID = 10, required = False, file = Some ''a.jar''\<rparr>"
proof -
  let ?files = "[\<lparr>fileID = 30, required = True, projectID = 3\<rparr>,
               \<lparr>fileID = 10, required = True, projectID = 1\<rparr>,
               \<lparr>fileID = 50, required = False, projectID = 5\<rparr>]"
  let ?old = "[(1, \<lparr>fileID = 10, required = False, file = Some ''a.jar''\<rparr>),
               (2, \<lparr>fileID = 20, required = True, file = Some ''b.jar''\<rparr>),
               (3, \<lparr>fileID = 29, required = True, file = Some ''c.jar''\<rparr>)]"
  have h2: "obj_get ?old 2 \<noteq> None \<and> 2 \<notin> projectID ` set ?files"
    by (simp add: obj_get_def)
  have h5: "obj_get ?old 5 = None \<and> 5 \<in> projectID ` set ?files"
    by (simp add: obj_get_def)
  have h3: "obj_get ?old 3 = Some \<lparr>fileID = 29, required = True, file = Some ''c.jar''\<rparr>
      \<and> obj_get (newData_of ?files) 3 = Some \<lparr>fileID = 30, required = True\<rparr>
      \<and> fileID \<lparr>fileID = 29, required = True, file = Some ''c.jar''\<rparr>
          \<noteq> fileID \<lparr>fileID = 30, required = True\<rparr>"
    by code_simp
  have h1: "obj_get ?old 1 = Some \<lparr>fileID = 10, required = False, file = Some ''a.jar''\<rparr>
      \<and> obj_get (newData_of ?files) 1 = Some \<lparr>fileID = 10, required = True\<rparr>
      \<and> fileID \<lparr>fileID = 10, required = False, file = Some ''a.jar''\<rparr>
          = fileID \<lparr>fileID = 10, required = True\<rparr>"
    by code_simp
  from diff_partitions_ids [of ?files ?old]
  obtain d where d: "diff ?files ?old = Inr d"
    and all: "\<And>pid.
       (obj_get ?old pid \<noteq> None \<and> pid \<notin> projectID ` set ?files \<longrightarrow>
          rm_of ?old pid \<in> set (removed d) \<and> pid \<notin> set (mIdToDownload d)
          \<and> obj_get (dataKeys d) pid = None) \<and>
       (obj_get ?old pid = None \<and> pid \<in> projectID ` set ?files \<longrightarrow>
          pid \<notin> fst ` set (removed d) \<and> pid \<in> set (mIdToDownload d)
          \<and> obj_get (dataKeys d) pid = map_option copy_new (obj_get (newData_of ?files) pid)) \<and>
       (\<forall>od nd. obj_get ?old pid = Some od \<and> obj_get (newData_of ?files) pid = Some nd
            \<and> fileID od \<noteq> fileID nd \<longrightarrow>
          (pid, template (file od)) \<in> set (removed d) \<and> pid \<in> set (mIdToDownload d)
          \<and> obj_get (dataKeys d) pid = Some (copy_new nd)) \<and>
       (\<forall>od nd. obj_get ?old pid = Some od \<and> obj_get (newData_of ?files) pid = Some nd
            \<and> fileID od = fileID nd \<longrightarrow>
          pid \<notin> fst ` set (removed d) \<and> pid \<notin> set (mIdToDownload d)
          \<and> obj_get (dataKeys d) pid = Some od)"
    by blast
  have r2: "rm_of ?old 2 = (2, ''b.jar'')"
    by (simp add: rm_of_def obj_get_def template_def)
  from all [of 2] h2 r2 have c2: "(2, ''b.jar'') \<in> set (removed d) \<and> 2 \<notin> set (mIdToDownload d)"
    by simp
  from all [of 5] h5 have c5: "5 \<notin> fst ` set (removed d) \<and> 5 \<in> set (mIdToDownload d)"
    by blast
  from all [of 3] h3 have c3: "(3, ''c.jar'') \<in> set (removed d) \<and> 3 \<in> set (mIdToDownload d) \<and>
     obj_get (dataKeys d) 3 = Some \<lparr>fileID = 30, required = True, file = None\<rparr>"
    by (simp add: template_def copy_new_def)
  from all [of 1] h1 have c1: "1 \<notin> fst ` set (removed d) \<and> 1 \<notin> set (mIdToDownload d) \<and>
     obj_get (dataKeys d) 1 = Some \<lparr>fileID = 10, required = False, file = Some ''a.jar''\<rparr>"
    by simp
  from d c2 c5 c3 c1 show ?thesis by blast
qed

subsection \<open>C3: deletions come before downloads\<close>

text \<open>
  Claim C3. In the sequence of calls of any run, every \<open>Juke.rm\<close> comes before every
  call of \<open>DownloadCF\<close>; and when the file id of a mod differs between the previous
  record and the manifest, a download of that mod is preceded by the deletion of the
  file its old record names.
\<close>

theorem removals_before_downloads:
  assumes "DownloadModsTarget DownloadCF w = (r, w', tr)"
  shows "(\<forall>i j. i < length tr \<and> j < length tr \<and> is_rm (tr ! i) \<and> is_download (tr ! j) \<longrightarrow> i < j) \<and>
    (\<forall>files oldData pid od nd j f dest.
        manifest_json w = Json files \<and> cache_json w = Json oldData \<and>
        obj_get oldData pid = Some od \<and> obj_get (newData_of files) pid = Some nd \<and>
        fileID od \<noteq> fileID nd \<and> j < length tr \<and> tr ! j = CallDownloadCF pid f dest \<longrightarrow>
        (\<exists>i<j. tr ! i = JukeRm (''dist/modcache/'' @ template (file od))))"
proof -
  have shape: "tr = [] \<or> (\<exists>rms post. tr = (MkdirSync ''dist/modcache'' # rm_actions rms) @ post
      \<and> (\<forall>a\<in>set post. \<not> is_rm a)
      \<and> (\<forall>files oldData. manifest_json w = Json files \<and> cache_json w = Json oldData \<longrightarrow>
            set rms = rm_of oldData ` {k. stale (newData_of files) oldData k}))"
  proof (cases "manifest_json w")
    case Missing
    with run_no_manifest [OF assms] show ?thesis by simp
  next
    case Unparsable
    with run_no_manifest [OF assms] show ?thesis by simp
  next
    case (Json files)
    show ?thesis
    proof (cases "plan files (cache_json w)")
      case (Inl ed)
      obtain e d where ed: "ed = (e, d)" by (cases ed)
      have "cache_json w = Unparsable"
        using plan_sets [of "cache_json w" files] Inl by (cases "cache_json w = Unparsable") auto
      with run_plan_thrown [OF assms Json Inl [unfolded ed]] Json
      show ?thesis
        by (intro disjI2 exI [of _ "removed d"] exI [of _ "[]"]) simp
    next
      case (Inr d)
      from run_trace_shape [OF assms Json Inr] obtain calls wr
        where tr: "tr = MkdirSync ''dist/modcache'' # rm_actions (removed d) @ calls @ wr"
          and calls: "\<forall>a\<in>set calls. is_download a"
          and wr: "wr = [] \<or> (\<exists>c. wr = [WriteFileSync ''dist/cache.json'' c])"
        by blast
      have post: "\<forall>a\<in>set (calls @ wr). \<not> is_rm a"
      proof
        fix a assume "a \<in> set (calls @ wr)"
        with calls wr show "\<not> is_rm a" by (cases a) auto
      qed
      have "set (removed d) = rm_of oldData ` {k. stale (newData_of files) oldData k}"
        if "cache_json w = Json oldData" for oldData
        using plan_sets [of "cache_json w" files] Inr that by (auto simp: previous_def)
      with tr post Json show ?thesis
        by (intro disjI2 exI [of _ "removed d"] exI [of _ "calls @ wr"]) simp
    qed
  qed
  show ?thesis
  proof (cases "tr = []")
    case True
    then show ?thesis by simp
  next
    case False
    with shape obtain rms post
      where split: "tr = (MkdirSync ''dist/modcache'' # rm_actions rms) @ post"
        and post: "\<forall>a\<in>set post. \<not> is_rm a"
        and rms0: "\<forall>files oldData. manifest_json w = Json files \<and> cache_json w = Json oldData \<longrightarrow>
            set rms = rm_of oldData ` {k. stale (newData_of files) oldData k}"
      by (elim disjE exE conjE) simp_all
    have rms: "set rms = rm_of oldData ` {k. stale (newData_of files) oldData k}"
      if "manifest_json w = Json files" "cache_json w = Json oldData" for files oldData
      using rms0 that by simp
    have pre: "\<forall>a\<in>set (MkdirSync ''dist/modcache'' # rm_actions rms). \<not> is_download a"
      by (auto simp: rm_actions_def)
    have order: "i < j" if "i < length tr" "j < length tr" "is_rm (tr ! i)" "is_download (tr ! j)" for i j
      using split_order [OF split pre post that] .
    have paired: "\<exists>i<j. tr ! i = JukeRm (''dist/modcache/'' @ template (file od))"
      if h: "manifest_json w = Json files" "cache_json w = Json oldData"
        "obj_get oldData pid = Some od" "obj_get (newData_of files) pid = Some nd"
        "fileID od \<noteq> fileID nd" "j < length tr" "tr ! j = CallDownloadCF pid f dest"
      for files oldData pid od nd j f dest
    proof -
      have "stale (newData_of files) oldData pid"
        using h(3,4,5) by (simp add: stale_def changed_def)
      then have "rm_of oldData pid \<in> set rms"
        unfolding rms [OF h(1,2)] by blast
      moreover have "rm_of oldData pid = (pid, template (file od))"
        using h(3) by (simp add: rm_of_def)
      ultimately have "JukeRm (''dist/modcache/'' @ template (file od)) \<in> set (rm_actions rms)"
        by (force simp: rm_actions_def)
      then obtain n where n: "n < length (rm_actions rms)"
        "rm_actions rms ! n = JukeRm (''dist/modcache/'' @ template (file od))"
        by (auto simp: in_set_conv_nth)
      have at: "tr ! Suc n = JukeRm (''dist/modcache/'' @ template (file od))"
        using n by (simp add: split nth_append)
      have "Suc n < length tr"
        using n by (simp add: split)
      from order [OF this h(6)] at h(7) have "Suc n < j" by simp
      with at show ?thesis by blast
    qed
    show ?thesis
    proof (intro conjI allI impI)
      fix i j
      assume "i < length tr \<and> j < length tr \<and> is_rm (tr ! i) \<and> is_download (tr ! j)"
      then show "i < j" using order by simp
    next
      fix files oldData pid od nd j f dest
      assume "manifest_json w = Json files \<and> cache_json w = Json oldData \<and>
        obj_get oldData pid = Some od \<and> obj_get (newData_of files) pid = Some nd \<and>
        fileID od \<noteq> fileID nd \<and> j < length tr \<and> tr ! j = CallDownloadCF pid f dest"
      then show "\<exists>i<j. tr ! i = JukeRm (''dist/modcache/'' @ template (file od))"
        using paired [of files oldData pid od nd j f dest] by simp
    qed
  qed
qed

theorem removals_before_downloads_witness:
  "\<exists>r w' tr. DownloadModsTarget jar world1 = (r, w', tr) \<and>
     take 5 tr = [MkdirSync ''dist/modcache'', JukeRm ''dist/modcache/b.jar'',
        JukeRm ''dist/modcache/c.jar'', CallDownloadCF 5 50 ''dist/modcache/'',
        CallDownloadCF 3 30 ''dist/modcache/''] \<and>
     is_rm (tr ! 2) \<and> is_download (tr ! 3) \<and> (2::nat) < 3 \<and>
     manifest_json world1 = Json [entry 3 30 True, entry 1 10 True, entry 5 50 False] \<and>
     obj_get [(1, cached 10 False ''a.jar''), (2, cached 20 True ''b.jar''),
              (3, cached 29 True ''c.jar'')] 3 = Some (cached 29 True ''c.jar'') \<and>
     (\<exists>i<4. tr ! i = JukeRm (''dist/modcache/'' @ template (file (cached 29 True ''c.jar''))))"
proof -
  let ?files = "[entry 3 30 True, entry 1 10 True, entry 5 50 False]"
  let ?old = "[(1, cached 10 False ''a.jar''), (2, cached 20 True ''b.jar''),
              (3, cached 29 True ''c.jar'')]"
  let ?tr = "snd (snd (DownloadModsTarget jar world1))"
  have run: "DownloadModsTarget jar world1
      = (fst (DownloadModsTarget jar world1), fst (snd (DownloadModsTarget jar world1)), ?tr)"
    by simp
  have tr: "?tr = [MkdirSync ''dist/modcache'', JukeRm ''dist/modcache/b.jar'',
        JukeRm ''dist/modcache/c.jar'', CallDownloadCF 5 50 ''dist/modcache/'',
        CallDownloadCF 3 30 ''dist/modcache/'',
        WriteFileSync ''dist/cache.json''
          [(1, cached 10 False ''a.jar''), (3, cached 30 True ''mmm.jar''),
           (5, cached 50 False ''mmmmm.jar'')]]"
    by code_simp
  have h: "manifest_json world1 = Json ?files" "cache_json world1 = Json ?old"
      "obj_get ?old 3 = Some (cached 29 True ''c.jar'')"
      "obj_get (newData_of ?files) 3 = Some \<lparr>fileID = 30, required = True\<rparr>"
      "fileID (cached 29 True ''c.jar'') \<noteq> fileID \<lparr>fileID = 30, required = True\<rparr>"
    by code_simp+
  note both = removals_before_downloads [OF run]
  from both [THEN conjunct1, rule_format, of 2 3] have ord: "(2::nat) < 3"
    by (simp add: tr)
  from both [THEN conjunct2, rule_format, of ?files ?old 3 "cached 29 True ''c.jar''"
      "\<lparr>fileID = 30, required = True\<rparr>" 4 30 "''dist/modcache/''"] h
  have "\<exists>i<4. ?tr ! i = JukeRm (''dist/modcache/'' @ template (file (cached 29 True ''c.jar'')))"
    by (simp add: tr)
  with run ord h show ?thesis
    by (intro exI [of _ "fst (DownloadModsTarget jar world1)"]
          exI [of _ "fst (snd (DownloadModsTarget jar world1))"] exI [of _ ?tr])
       (simp add: tr)
qed

subsection \<open>C4: how the record is written and read back\<close>

text \<open>
  Claim C4 says that an unparsable record is treated like an absent one. With the same
  manifest, the run on an unparsable \<open>dist/cache.json\<close> stops with a \<open>SyntaxError\<close>
  right after \<open>mkdirSync\<close>, while the run without the file downloads all three mods
  and writes the record, in one \<open>writeFileSync\<close> on \<open>dist/cache.json\<close> itself.
\<close>

theorem corrupt_record_as_absent_counterexample:
  "fst (DownloadModsTarget jar (world2\<lparr>cache_json := Unparsable\<rparr>)) = Inl (Thrown SyntaxError) \<and>
   snd (snd (DownloadModsTarget jar (world2\<lparr>cache_json := Unparsable\<rparr>)))
     = [MkdirSync ''dist/modcache''] \<and>
   fst (DownloadModsTarget jar (world2\<lparr>cache_json := Missing\<rparr>)) = Inr () \<and>
   snd (snd (DownloadModsTarget jar (world2\<lparr>cache_json := Missing\<rparr>)))
     = [MkdirSync ''dist/modcache'', CallDownloadCF 1 10 ''dist/modcache/'',
        CallDownloadCF 2 20 ''dist/modcache/'', CallDownloadCF 3 30 ''dist/modcache/'',
        WriteFileSync ''dist/cache.json''
          [(1, cached 10 True ''m.jar''), (2, cached 20 True ''mm.jar''),
           (3, cached 30 True ''mmm.jar'')]]"
  by code_simp

text \<open>
  Claim C4, amended. The record is written by one \<open>writeFileSync\<close> on
  \<open>dist/cache.json\<close> itself: it is the last call of a successful run, no other write
  comes before it, and the record is then what was written (there is no temporary file
  and no rename). An unparsable record is not treated as absent: the run stops with a
  \<open>SyntaxError\<close> after \<open>mkdirSync\<close>, before any deletion, download or write, and
  leaves the record and the files of \<open>dist/modcache\<close> as they were. What a write that
  throws leaves behind is not part of the statement.
\<close>

theorem record_written_directly_and_corrupt_record_fatal:
  assumes "DownloadModsTarget DownloadCF w = (r, w', tr)"
  shows "(r = Inr () \<longrightarrow>
            (\<exists>c pre. cache_json w' = Json c \<and> tr = pre @ [WriteFileSync ''dist/cache.json'' c] \<and>
               filter is_write pre = [])) \<and>
         (\<forall>files. manifest_json w = Json files \<and> cache_json w = Unparsable \<longrightarrow>
            r = Inl (Thrown SyntaxError) \<and> w' = w \<and> tr = [MkdirSync ''dist/modcache''])"
proof -
  have "r = Inl (Thrown SyntaxError) \<and> w' = w \<and> tr = [MkdirSync ''dist/modcache'']"
    if "manifest_json w = Json files" "cache_json w = Unparsable" for files
    using assms that
    by (auto simp: DownloadModsTarget_def plan_def after_diff_def rm_files_def rm_actions_def)
  with run_no_write [OF assms] show ?thesis
    by blast
qed

theorem record_written_directly_and_corrupt_record_fatal_witness:
  "manifest_json (world2\<lparr>cache_json := Unparsable\<rparr>)
     = Json [entry 1 10 True, entry 2 20 True, entry 3 30 True] \<and>
   cache_json (world2\<lparr>cache_json := Unparsable\<rparr>) = Unparsable \<and>
   DownloadModsTarget jar (world2\<lparr>cache_json := Unparsable\<rparr>)
     = (Inl (Thrown SyntaxError), world2\<lparr>cache_json := Unparsable\<rparr>, [MkdirSync ''dist/modcache'']) \<and>
   fst (DownloadModsTarget jar world2) = Inr () \<and>
   (\<exists>c pre. cache_json (fst (snd (DownloadModsTarget jar world2))) = Json c \<and>
      snd (snd (DownloadModsTarget jar world2)) = pre @ [WriteFileSync ''dist/cache.json'' c] \<and>
      filter is_write pre = [])"
proof -
  let ?u = "world2\<lparr>cache_json := Unparsable\<rparr>"
  have hu: "manifest_json ?u = Json [entry 1 10 True, entry 2 20 True, entry 3 30 True]"
      "cache_json ?u = Unparsable"
    by (simp_all add: world2_def)
  have ru: "DownloadModsTarget jar ?u
      = (fst (DownloadModsTarget jar ?u), fst (snd (DownloadModsTarget jar ?u)),
         snd (snd (DownloadModsTarget jar ?u)))"
    by simp
  from record_written_directly_and_corrupt_record_fatal [OF ru] hu
  have 1: "DownloadModsTarget jar ?u = (Inl (Thrown SyntaxError), ?u, [MkdirSync ''dist/modcache''])"
    by (metis prod.collapse)
  have ok: "fst (DownloadModsTarget jar world2) = Inr ()"
    by code_simp
  have r2: "DownloadModsTarget jar world2
      = (fst (DownloadModsTarget jar world2), fst (snd (DownloadModsTarget jar world2)),
         snd (snd (DownloadModsTarget jar world2)))"
    by simp
  from record_written_directly_and_corrupt_record_fatal [OF r2] ok
  have 2: "\<exists>c pre. cache_json (fst (snd (DownloadModsTarget jar world2))) = Json c \<and>
      snd (snd (DownloadModsTarget jar world2)) = pre @ [WriteFileSync ''dist/cache.json'' c] \<and>
      filter is_write pre = []"
    by simp
  from hu 1 ok 2 show ?thesis
    by simp
qed

subsection \<open>C5: the manifest is parsed, not validated\<close>

text \<open>
  Claim C5 says that a manifest with a missing field, a non-numeric identifier or a
  duplicate artifact id fails validation before any file system or network action. None
  of the three is rejected, and what does fail comes after \<open>mkdirSync\<close>.
  \<^item> A manifest that lists project 1 twice runs to success: the directory is created,
    file 11 of project 1 is downloaded twice, and the record is written.
  \<^item> An entry without \<open>projectID\<close> is filed under the key \<open>undefined\<close>. With mod 1
    in the record the run deletes \<open>a.jar\<close>, calls \<open>DownloadCF\<close> for the mod
    \<open>undefined\<close> and writes that key to the record; on a first run with a \<open>DownloadCF\<close>
    that rejects, the run ends with that rejection, after \<open>mkdirSync\<close> and the call.
  \<^item> An entry whose \<open>projectID\<close> is the string \<open>abc\<close> and which has no \<open>fileID\<close> is
    downloaded and recorded as it is.
  \<^item> An element \<open>null\<close> of \<open>files\<close>, or a manifest that is \<open>null\<close>, ends the run with a
    \<open>TypeError\<close>, after \<open>mkdirSync\<close>.
\<close>

theorem malformed_manifest_rejected_counterexample:
  "manifest_json world3 = Json [entry 1 10 True, entry 1 11 False] \<and>
   map projectID [entry 1 10 True, entry 1 11 False] = [1, 1] \<and>
   fst (DownloadModsTarget jar world3) = Inr () \<and>
   snd (snd (DownloadModsTarget jar world3))
     = [MkdirSync ''dist/modcache'', CallDownloadCF 1 11 ''dist/modcache/'',
        CallDownloadCF 1 11 ''dist/modcache/'',
        WriteFileSync ''dist/cache.json'' [(1, cached 11 False ''m.jar'')]] \<and>
   fst (DownloadModsTarget_any jar_any
          (cached_world (Json (Files [Fields JUndefined (JNum 10) (JBool True)])))) = Inr () \<and>
   snd (snd (DownloadModsTarget_any jar_any
          (cached_world (Json (Files [Fields JUndefined (JNum 10) (JBool True)])))))
     = [MkdirSync_any ''dist/modcache'', JukeRm_any ''dist/modcache/a.jar'',
        CallDownloadCF_any ''undefined'' (JNum 10) ''dist/modcache/'',
        WriteFileSync_any ''dist/cache.json''
          [(''undefined'',
            \<lparr>fileID_val = JNum 10, required_val = JBool True, file_val = JStr ''undefined.jar''\<rparr>)]] \<and>
   fst (DownloadModsTarget_any no_such_mod
          (fresh_world (Json (Files [Fields JUndefined (JNum 10) (JBool True)]))))
     = Inl (Rejected ()) \<and>
   snd (snd (DownloadModsTarget_any no_such_mod
          (fresh_world (Json (Files [Fields JUndefined (JNum 10) (JBool True)])))))
     = [MkdirSync_any ''dist/modcache'',
        CallDownloadCF_any ''undefined'' (JNum 10) ''dist/modcache/''] \<and>
   fst (DownloadModsTarget_any jar_any
          (fresh_world (Json (Files [Fields (JStr ''abc'') JUndefined (JBool True)])))) = Inr () \<and>
   snd (snd (DownloadModsTarget_any jar_any
          (fresh_world (Json (Files [Fields (JStr ''abc'') JUndefined (JBool True)])))))
     = [MkdirSync_any ''dist/modcache'',
        CallDownloadCF_any ''abc'' JUndefined ''dist/modcache/'',
        WriteFileSync_any ''dist/cache.json''
          [(''abc'',
            \<lparr>fileID_val = JUndefined, required_val = JBool True, file_val = JStr ''abc.jar''\<rparr>)]] \<and>
   fst (DownloadModsTarget_any jar_any
          (cached_world (Json (Files [Fields (JNum 1) (JNum 10) (JBool True), Null_entry]))))
     = Inl (Thrown TypeError) \<and>
   snd (snd (DownloadModsTarget_any jar_any
          (cached_world (Json (Files [Fields (JNum 1) (JNum 10) (JBool True), Null_entry])))))
     = [MkdirSync_any ''dist/modcache''] \<and>
   fst (DownloadModsTarget_any jar_any (fresh_world (Json Null_manifest)))
     = Inl (Thrown TypeError) \<and>
   snd (snd (DownloadModsTarget_any jar_any (fresh_world (Json Null_manifest))))
     = [MkdirSync_any ''dist/modcache'']"
  by code_simp

text \<open>
  Claim C5, amended. A \<open>manifest.json\<close> that is missing or is not JSON ends the run
  before any file system or network action. Once the manifest is parsed, nothing is
  checked before the first file system action: the run creates \<open>dist/modcache\<close>
  whatever value the manifest holds, so a failure that an entry causes comes after it.
  Duplicate project ids are not checked: for a manifest whose entries have a numeric
  \<open>projectID\<close> and \<open>fileID\<close>, the last entry of a project id is the one that counts,
  and the run succeeds when the record is readable and \<open>DownloadCF\<close> resolves for the
  ids of the manifest. What becomes of an entry whose \<open>projectID\<close> or \<open>fileID\<close> is
  missing or not a number is not part of the statement: the target takes such entries
  as shown above, while \<open>BuildModlistTarget\<close> (lines 134 to 140) checks \<open>projectID\<close>
  with \<open>zod\<close>.
\<close>

theorem manifest_entries_not_validated:
  "(manifest_value v = Missing \<or> manifest_value v = Unparsable \<longrightarrow>
      (\<exists>e. DownloadModsTarget_any DownloadCF_any v = (Inl (Thrown e), v, []))) \<and>
   (\<forall>manifest. manifest_value v = Json manifest \<longrightarrow>
      (\<exists>rest. snd (snd (DownloadModsTarget_any DownloadCF_any v))
         = MkdirSync_any ''dist/modcache'' # rest)) \<and>
   (\<forall>pre data post. files = pre @ data # post \<and> projectID data \<notin> projectID ` set post \<longrightarrow>
      obj_get (newData_of files) (projectID data)
        = Some \<lparr>fileID = fileID data, required = required data\<rparr>) \<and>
   (manifest_json w = Json files \<and> cache_json w \<noteq> Unparsable \<and>
    (\<forall>data\<in>set files. \<forall>f. \<exists>res. DownloadCF (projectID data) f = Inr res) \<longrightarrow>
      fst (DownloadModsTarget DownloadCF w) = Inr ())"
proof (intro conjI impI allI)
  assume "manifest_value v = Missing \<or> manifest_value v = Unparsable"
  then show "\<exists>e. DownloadModsTarget_any DownloadCF_any v = (Inl (Thrown e), v, [])"
    by (rule run_any_no_manifest)
next
  fix manifest
  assume "manifest_value v = Json manifest"
  then show "\<exists>rest. snd (snd (DownloadModsTarget_any DownloadCF_any v))
         = MkdirSync_any ''dist/modcache'' # rest"
    by (rule run_any_mkdir_first)
next
  fix pre data post
  assume "files = pre @ data # post \<and> projectID data \<notin> projectID ` set post"
  then show "obj_get (newData_of files) (projectID data)
        = Some \<lparr>fileID = fileID data, required = required data\<rparr>"
    by (auto simp: obj_get_newData_of desired_def map_add_Some_iff map_of_eq_None_iff image_iff)
next
  assume ok: "manifest_json w = Json files \<and> cache_json w \<noteq> Unparsable \<and>
       (\<forall>data\<in>set files. \<forall>f. \<exists>res. DownloadCF (projectID data) f = Inr res)"
  then have files: "manifest_json w = Json files"
    by simp
  from plan_sets [of "cache_json w" files] ok obtain d
    where d: "plan files (cache_json w) = Inr d"
      and ids: "set (mIdToDownload d) = {k. wanted (newData_of files) (previous (cache_json w)) k}"
      and keys: "\<And>k. obj_get (dataKeys d) k = merged (newData_of files) (previous (cache_json w)) k"
    by blast
  have "fetched DownloadCF (dataKeys d) k \<noteq> None" if "k \<in> set (mIdToDownload d)" for k
  proof -
    from that ids have k: "k \<in> projectID ` set files"
      by (auto dest: wanted_in_manifest)
    from merged_in_manifest [OF this] keys obtain data where data: "obj_get (dataKeys d) k = Some data"
      by fastforce
    from k ok obtain res where "DownloadCF k (fileID data) = Inr res"
      by blast
    with data show ?thesis by (simp add: fetched_def)
  qed
  then have "\<forall>k\<in>set (mIdToDownload d). fetched DownloadCF (dataKeys d) k \<noteq> None"
    by blast
  from run_all_ok [OF files d this] show "fst (DownloadModsTarget DownloadCF w) = Inr ()"
    by auto
qed

theorem manifest_entries_not_validated_witness:
  "manifest_value (fresh_world Unparsable) = Unparsable \<and>
   (\<exists>e. DownloadModsTarget_any jar_any (fresh_world Unparsable)
      = (Inl (Thrown e), fresh_world Unparsable, [])) \<and>
   manifest_value (fresh_world (Json Null_manifest)) = Json Null_manifest \<and>
   (\<exists>rest. snd (snd (DownloadModsTarget_any jar_any (fresh_world (Json Null_manifest))))
      = MkdirSync_any ''dist/modcache'' # rest) \<and>
   manifest_json world3 = Json [entry 1 10 True, entry 1 11 False] \<and>
   cache_json world3 \<noteq> Unparsable \<and>
   jar (projectID (entry 1 10 True)) 7 = Inr (''m.jar'', 7) \<and>
   fst (DownloadModsTarget jar world3) = Inr () \<and>
   obj_get (newData_of [entry 1 10 True, entry 1 11 False]) 1
     = Some \<lparr>fileID = 11, required = False\<rparr>"
proof -
  let ?files = "[entry 1 10 True, entry 1 11 False]"
  let ?u = "fresh_world Unparsable"
  let ?n = "fresh_world (Json Null_manifest)"
  have h: "manifest_json world3 = Json ?files" "cache_json world3 \<noteq> Unparsable"
    by (simp_all add: world3_def)
  have all: "\<forall>data\<in>set ?files. \<forall>f. \<exists>res. jar (projectID data) f = Inr res"
    by (simp add: jar_def)
  have ex: "jar (projectID (entry 1 10 True)) 7 = Inr (''m.jar'', 7)"
    by code_simp
  have hu: "manifest_value ?u = Unparsable"
    by (simp add: fresh_world_def)
  have hn: "manifest_value ?n = Json Null_manifest"
    by (simp add: fresh_world_def)
  have hl: "?files = [entry 1 10 True] @ entry 1 11 False # [] \<and>
      projectID (entry 1 11 False) \<notin> projectID ` set []"
    by simp
  from manifest_entries_not_validated
    [where v = ?u and DownloadCF_any = jar_any and w = world3 and files = ?files and DownloadCF = jar]
    hu hl h all
  have 1: "(\<exists>e. DownloadModsTarget_any jar_any ?u = (Inl (Thrown e), ?u, [])) \<and>
      obj_get (newData_of ?files) (projectID (entry 1 11 False))
        = Some \<lparr>fileID = fileID (entry 1 11 False), required = required (entry 1 11 False)\<rparr> \<and>
      fst (DownloadModsTarget jar world3) = Inr ()"
    by blast
  from manifest_entries_not_validated
    [where v = ?n and DownloadCF_any = jar_any and w = world3 and files = ?files and DownloadCF = jar]
    hn
  have 2: "\<exists>rest. snd (snd (DownloadModsTarget_any jar_any ?n)) = MkdirSync_any ''dist/modcache'' # rest"
    by blast
  from h ex hu hn 1 2 show ?thesis
    by (simp add: entry_def)
qed

subsection \<open>C6: the first run downloads everything\<close>

text \<open>
  Claim C6. When \<open>dist/cache.json\<close> is missing, the run starts from an empty record:
  it schedules the project id of every manifest entry for download, in manifest order,
  records for each id what the manifest says, and issues no deletion; when the run
  succeeds, its downloads are exactly those.
\<close>

theorem first_run_downloads_everything:
  assumes "manifest_json w = Json files" "cache_json w = Missing"
    and "DownloadModsTarget DownloadCF w = (r, w', tr)"
  shows "plan files (cache_json w) = Inr (remap files) \<and>
         mIdToDownload (remap files) = map projectID files \<and>
         removed (remap files) = [] \<and>
         (\<forall>k. obj_get (dataKeys (remap files)) k = map_option copy_new (obj_get (newData_of files) k)) \<and>
         filter is_rm tr = [] \<and>
         (r = Inr () \<longrightarrow>
            filter is_download tr = download_calls (dataKeys (remap files)) (map projectID files))"
proof -
  have d: "plan files (cache_json w) = Inr (remap files)"
    using assms(2) by (simp add: plan_def)
  from run_trace_shape [OF assms(3,1) d] obtain calls wr
    where tr: "tr = MkdirSync ''dist/modcache'' # calls @ wr"
      and calls: "\<forall>a\<in>set calls. is_download a"
      and wr: "wr = [] \<or> (\<exists>c. wr = [WriteFileSync ''dist/cache.json'' c])"
    by (auto simp: remap_closed_form rm_actions_def)
  have "\<not> is_rm a" if "a \<in> set tr" for a
    using that calls wr download_not_rm unfolding tr by auto
  then have no_rm: "filter is_rm tr = []"
    by (simp add: filter_empty_conv)
  have "filter is_download tr = download_calls (dataKeys (remap files)) (map projectID files)"
    if "r = Inr ()"
    using run_success [OF assms(1) d assms(3) [unfolded that]]
    by (auto simp: remap_closed_form rm_actions_def download_calls_are_downloads)
  with d no_rm show ?thesis
    by (simp add: remap_closed_form)
qed

theorem first_run_downloads_everything_witness:
  "manifest_json world2 = Json [entry 1 10 True, entry 2 20 True, entry 3 30 True] \<and>
   cache_json world2 = Missing \<and>
   fst (DownloadModsTarget jar world2) = Inr () \<and>
   mIdToDownload (remap [entry 1 10 True, entry 2 20 True, entry 3 30 True]) = [1, 2, 3] \<and>
   filter is_rm (snd (snd (DownloadModsTarget jar world2))) = [] \<and>
   filter is_download (snd (snd (DownloadModsTarget jar world2)))
     = [CallDownloadCF 1 10 ''dist/modcache/'', CallDownloadCF 2 20 ''dist/modcache/'',
        CallDownloadCF 3 30 ''dist/modcache/'']"
proof -
  let ?files = "[entry 1 10 True, entry 2 20 True, entry 3 30 True]"
  have h: "manifest_json world2 = Json ?files" "cache_json world2 = Missing"
    by (simp_all add: world2_def)
  have ok: "fst (DownloadModsTarget jar world2) = Inr ()"
    by code_simp
  then have run: "DownloadModsTarget jar world2
      = (Inr (), fst (snd (DownloadModsTarget jar world2)), snd (snd (DownloadModsTarget jar world2)))"
    by (metis prod.collapse)
  have calls: "download_calls (dataKeys (remap ?files)) (map projectID ?files)
     = [CallDownloadCF 1 10 ''dist/modcache/'', CallDownloadCF 2 20 ''dist/modcache/'',
        CallDownloadCF 3 30 ''dist/modcache/'']"
    by code_simp
  have ids: "map projectID ?files = [1, 2, 3]"
    by code_simp
  from first_run_downloads_everything [OF h run] h ok calls ids show ?thesis
    by simp
qed

subsection \<open>C7: files and record entries after a successful run\<close>

text \<open>
  Claim C7 says that after every successful run each file of \<open>dist/modcache\<close> is
  referenced by exactly one entry of the persisted record. A first run on mods 1, 2 and
  3 whose download of mod 2 is rejected leaves \<open>m.jar\<close> of mod 1 in the directory
  and no record (\<open>world5\<close> is that state with the manifest then reduced to mod 3).
  The next run succeeds, persists a record with the single entry of mod 3, and
  \<open>m.jar\<close> is still in the directory, referenced by no entry.
\<close>

theorem no_orphans_counterexample:
  "fst (DownloadModsTarget (jar_but 2) world2) = Inl (Rejected ()) \<and>
   manifest_json world5 = Json [entry 3 30 True] \<and>
   cache_json world5 = Missing \<and>
   modcache world5 ''m.jar'' = Some 10 \<and>
   fst (DownloadModsTarget jar world5) = Inr () \<and>
   cache_json (fst (snd (DownloadModsTarget jar world5))) = Json [(3, cached 30 True ''mmm.jar'')] \<and>
   modcache (fst (snd (DownloadModsTarget jar world5))) ''m.jar'' = Some 10"
  by code_simp

text \<open>
  Claim C7, amended. When the run starts from a directory whose files are each named by
  exactly one entry of the previous record, with every entry's file present (an empty
  directory when there is no record), and \<open>DownloadCF\<close> returns file names that differ
  from one downloaded mod to another and from the file names of the entries the run
  keeps, then after a successful run every file of \<open>dist/modcache\<close> is referenced by
  exactly one entry of the persisted record and every entry's file exists.
\<close>

theorem no_orphans_from_consistent_start:
  assumes files: "manifest_json w = Json files"
    and d: "plan files (cache_json w) = Inr d"
    and start: "consistent (modcache w) (previous (cache_json w))"
    and names: "fresh_names (fetched DownloadCF (dataKeys d)) d"
    and run: "DownloadModsTarget DownloadCF w = (Inr u, w', tr)"
  shows "\<exists>c. cache_json w' = Json c \<and> consistent (modcache w') c"
proof -
  let ?new = "newData_of files"
  let ?old = "previous (cache_json w)"
  let ?got = "fetched DownloadCF (dataKeys d)"
  let ?ids = "set (mIdToDownload d)"
  have readable: "cache_json w \<noteq> Unparsable"
    using d by (auto simp: plan_def)
  from plan_sets [OF readable, of files] d
  have ids: "?ids = {k. wanted ?new ?old k}"
    and rem: "set (removed d) = rm_of ?old ` {k. stale ?new ?old k}"
    and dk: "\<And>k. obj_get (dataKeys d) k = merged ?new ?old k"
    by auto
  from run_success [OF files d run] obtain c
    where c: "cache_json w' = Json c"
      and ck: "\<And>k. obj_get c k = named ?got (dataKeys d) (mIdToDownload d) k"
      and mc: "modcache w' = store ?got (rm_files (removed d) (modcache w)) (mIdToDownload d)"
      and ok: "\<forall>k\<in>?ids. ?got k \<noteq> None"
    by blast
  from start have once: "\<And>name. modcache w name \<noteq> None \<Longrightarrow> \<exists>!k. references ?old k name"
    and there: "\<And>k data. obj_get ?old k = Some data \<Longrightarrow> \<exists>name. file data = Some name \<and> modcache w name \<noteq> None"
    unfolding consistent_def by blast+
  from names have inj: "\<And>k k' res res'. k \<in> ?ids \<Longrightarrow> k' \<in> ?ids \<Longrightarrow> ?got k = Some res \<Longrightarrow>
        ?got k' = Some res' \<Longrightarrow> fst res' = fst res \<Longrightarrow> k' = k"
    and fresh: "\<And>k k' res data. k \<in> ?ids \<Longrightarrow> ?got k = Some res \<Longrightarrow> k' \<notin> ?ids \<Longrightarrow>
        obj_get (dataKeys d) k' = Some data \<Longrightarrow> file data \<noteq> Some (fst res)"
    unfolding fresh_names_def by blast+
  have present: "modcache w' name \<noteq> None \<longleftrightarrow>
      (modcache w name \<noteq> None \<and> name \<notin> snd ` set (removed d))
      \<or> (\<exists>k\<in>?ids. \<exists>res. ?got k = Some res \<and> fst res = name)" for name
    unfolding mc store_present rm_files_apply by auto
  have ref_new: "references c k name \<longleftrightarrow> (\<exists>res. ?got k = Some res \<and> fst res = name)"
    if "k \<in> ?ids" for k name
  proof -
    from that ok obtain res where res: "?got k = Some res" by auto
    from fetched_has_entry [OF this] obtain data where "obj_get (dataKeys d) k = Some data" by auto
    with that res show ?thesis
      by (auto simp: references_def ck named_def)
  qed
  have ref_kept: "references c k name \<longleftrightarrow> references ?old k name \<and> \<not> stale ?new ?old k"
    if "k \<notin> ?ids" for k name
  proof
    assume "references c k name"
    with that obtain data where data: "obj_get (dataKeys d) k = Some data" "file data = Some name"
      by (auto simp: references_def ck named_def split: option.splits)
    from that have "\<not> wanted ?new ?old k" by (simp add: ids)
    from kept_is_old [OF this data(1) [unfolded dk]] data(2)
    show "references ?old k name \<and> \<not> stale ?new ?old k"
      by (auto simp: references_def)
  next
    assume "references ?old k name \<and> \<not> stale ?new ?old k"
    then obtain data where data: "obj_get ?old k = Some data" "file data = Some name"
      "\<not> stale ?new ?old k"
      by (auto simp: references_def)
    from old_is_kept [OF data(1,3)] have "merged ?new ?old k = Some data" by simp
    with that data(2) show "references c k name"
      by (auto simp: references_def ck named_def dk)
  qed
  have not_removed: "name \<notin> snd ` set (removed d)"
    if "references ?old k name" "\<not> stale ?new ?old k" for k name
  proof
    assume "name \<in> snd ` set (removed d)"
    then obtain k' od where k': "stale ?new ?old k'" "obj_get ?old k' = Some od" "template (file od) = name"
      unfolding removed_names [OF rem] by blast
    from there [OF k'(2)] k'(3) have "references ?old k' name"
      by (auto simp: references_def template_def k'(2))
    moreover from that(1) obtain data where "obj_get ?old k = Some data" "file data = Some name"
      by (auto simp: references_def)
    from there [OF this(1)] this(2) have "modcache w name \<noteq> None" by auto
    ultimately have "k' = k"
      using once [of name] that(1) by blast
    with k'(1) that(2) show False by simp
  qed
  have stale_removed: "name \<in> snd ` set (removed d)"
    if "references ?old k name" "stale ?new ?old k" for k name
  proof -
    from that(1) obtain data where "obj_get ?old k = Some data" "file data = Some name"
      by (auto simp: references_def)
    with that(2) show ?thesis
      unfolding removed_names [OF rem] by (auto simp: template_def)
  qed
  have exists: "\<exists>name. file data = Some name \<and> modcache w' name \<noteq> None"
    if "obj_get c k = Some data" for k data
  proof (cases "k \<in> ?ids")
    case True
    with ok obtain res where res: "?got k = Some res" by auto
    with True that have "file data = Some (fst res)"
      by (auto simp: ck named_def split: option.splits)
    moreover have "modcache w' (fst res) \<noteq> None"
      unfolding present using True res by blast
    ultimately show ?thesis by blast
  next
    case False
    with that have data: "obj_get (dataKeys d) k = Some data"
      by (auto simp: ck named_def split: option.splits)
    from False have "\<not> wanted ?new ?old k" by (simp add: ids)
    from kept_is_old [OF this data [unfolded dk]]
    have old: "obj_get ?old k = Some data" "\<not> stale ?new ?old k" by simp_all
    from there [OF old(1)] obtain name where name: "file data = Some name" "modcache w name \<noteq> None"
      by blast
    from old(1) name(1) have "references ?old k name"
      by (auto simp: references_def)
    from not_removed [OF this old(2)] name show ?thesis
      unfolding present by blast
  qed
  have unique: "\<exists>!k. references c k name" if "modcache w' name \<noteq> None" for name
  proof (cases "\<exists>k\<in>?ids. \<exists>res. ?got k = Some res \<and> fst res = name")
    case True
    then obtain k res where k: "k \<in> ?ids" "?got k = Some res" "fst res = name"
      by blast
    have "references c k name"
      using k by (auto simp: ref_new)
    moreover have "k2 = k" if r2: "references c k2 name" for k2
    proof (cases "k2 \<in> ?ids")
      case True
      with r2 obtain res2 where "?got k2 = Some res2" "fst res2 = name"
        by (auto simp: ref_new)
      with inj [OF k(1) True k(2)] k(3) show ?thesis by simp
    next
      case False
      with r2 obtain data where "obj_get (dataKeys d) k2 = Some data" "file data = Some name"
        by (auto simp: references_def ck named_def split: option.splits)
      with fresh [OF k(1,2) False] k(3) show ?thesis by auto
    qed
    ultimately show ?thesis by blast
  next
    case False
    with that have here: "modcache w name \<noteq> None" "name \<notin> snd ` set (removed d)"
      unfolding present by blast+
    from once [OF here(1)] obtain k0 where k0: "references ?old k0 name"
      and only: "\<And>k. references ?old k name \<Longrightarrow> k = k0"
      by blast
    have fine: "\<not> stale ?new ?old k0"
      using stale_removed [OF k0] here(2) by blast
    from k0 obtain data where data: "obj_get ?old k0 = Some data"
      by (auto simp: references_def)
    from old_is_kept [OF data fine] have "k0 \<notin> ?ids"
      by (simp add: ids)
    then have "references c k0 name"
      using k0 fine by (simp add: ref_kept)
    moreover have "k2 = k0" if r2: "references c k2 name" for k2
    proof (cases "k2 \<in> ?ids")
      case True
      with r2 False show ?thesis by (auto simp: ref_new)
    next
      case False
      with r2 have "references ?old k2 name" by (simp add: ref_kept)
      then show ?thesis by (rule only)
    qed
    ultimately show ?thesis by blast
  qed
  from exists unique have "consistent (modcache w') c"
    unfolding consistent_def by blast
  with c show ?thesis by blast
qed

theorem no_orphans_from_consistent_start_witness:
  "manifest_json world1 = Json [entry 3 30 True, entry 1 10 True, entry 5 50 False] \<and>
   plan [entry 3 30 True, entry 1 10 True, entry 5 50 False] (cache_json world1) = Inr plan1 \<and>
   consistent (modcache world1) (previous (cache_json world1)) \<and>
   fresh_names (fetched jar (dataKeys plan1)) plan1 \<and>
   fst (DownloadModsTarget jar world1) = Inr () \<and>
   cache_json (fst (snd (DownloadModsTarget jar world1)))
     = Json [(1, cached 10 False ''a.jar''), (3, cached 30 True ''mmm.jar''),
             (5, cached 50 False ''mmmmm.jar'')] \<and>
   map (modcache (fst (snd (DownloadModsTarget jar world1))))
     [''a.jar'', ''b.jar'', ''c.jar'', ''mmm.jar'', ''mmmmm.jar'']
     = [Some 10, None, None, Some 30, Some 50] \<and>
   (\<exists>c. cache_json (fst (snd (DownloadModsTarget jar world1))) = Json c \<and>
      consistent (modcache (fst (snd (DownloadModsTarget jar world1)))) c)"
proof -
  let ?files = "[entry 3 30 True, entry 1 10 True, entry 5 50 False]"
  let ?old = "[(1, cached 10 False ''a.jar''), (2, cached 20 True ''b.jar''),
               (3, cached 29 True ''c.jar'')]"
  have files: "manifest_json world1 = Json ?files"
    by (simp add: world1_def)
  have d: "plan ?files (cache_json world1) = Inr plan1"
    by code_simp
  have prev: "previous (cache_json world1) = ?old"
    by (simp add: world1_def previous_def)
  have refs: "references ?old k name \<longleftrightarrow>
      k = 1 \<and> name = ''a.jar'' \<or> k = 2 \<and> name = ''b.jar'' \<or> k = 3 \<and> name = ''c.jar''" for k name
    by (auto simp: references_def obj_get_def cached_def)
  have dom1: "modcache world1 name \<noteq> None \<longleftrightarrow> name = ''a.jar'' \<or> name = ''b.jar'' \<or> name = ''c.jar''"
    for name
    by (simp add: world1_def)
  have start: "consistent (modcache world1) (previous (cache_json world1))"
    unfolding consistent_def prev
  proof (intro conjI allI impI)
    fix name assume "modcache world1 name \<noteq> None"
    then show "\<exists>!k. references ?old k name"
      unfolding dom1 refs by auto
  next
    fix k data assume "obj_get ?old k = Some data"
    then show "\<exists>name. file data = Some name \<and> modcache world1 name \<noteq> None"
      unfolding dom1 by (auto simp: obj_get_def cached_def split: if_splits)
  qed
  have got: "fetched jar (dataKeys plan1) 5 = Some (''mmmmm.jar'', 50)"
      "fetched jar (dataKeys plan1) 3 = Some (''mmm.jar'', 30)"
    by code_simp+
  have others: "obj_get (dataKeys plan1) k = Some data \<Longrightarrow> k \<noteq> 5 \<Longrightarrow> k \<noteq> 3 \<Longrightarrow>
      file data = Some ''a.jar''" for k data
    by (auto simp: plan1_def obj_get_def cached_def split: if_splits)
  have ids: "set (mIdToDownload plan1) = {5, 3}"
    by (simp add: plan1_def)
  have names: "fresh_names (fetched jar (dataKeys plan1)) plan1"
    unfolding fresh_names_def ids using got others by auto
  have ok: "fst (DownloadModsTarget jar world1) = Inr ()"
    by code_simp
  then have run: "DownloadModsTarget jar world1
      = (Inr (), fst (snd (DownloadModsTarget jar world1)), snd (snd (DownloadModsTarget jar world1)))"
    by (metis prod.collapse)
  have c: "cache_json (fst (snd (DownloadModsTarget jar world1)))
     = Json [(1, cached 10 False ''a.jar''), (3, cached 30 True ''mmm.jar''),
             (5, cached 50 False ''mmmmm.jar'')]"
    by code_simp
  have m: "map (modcache (fst (snd (DownloadModsTarget jar world1))))
     [''a.jar'', ''b.jar'', ''c.jar'', ''mmm.jar'', ''mmmmm.jar'']
     = [Some 10, None, None, Some 30, Some 50]"
    by code_simp
  from no_orphans_from_consistent_start [OF files d start names run] files d start names ok c m
  show ?thesis
    by blast
qed

subsection \<open>C8: the required flag does not enter the diff\<close>

text \<open>
  Claim C8. Two manifests that list the same project ids with the same file ids, in the
  same order, and differ only in their \<open>required\<close> flags get the same deletions and
  the same list of ids to download, against any readable or missing previous record.
\<close>

theorem required_flag_not_diffed:
  assumes "map projectID files' = map projectID files" "map fileID files' = map fileID files"
  shows "cache \<noteq> Unparsable \<longrightarrow>
     (\<exists>d d'. plan files cache = Inr d \<and> plan files' cache = Inr d' \<and>
        removed d' = removed d \<and> mIdToDownload d' = mIdToDownload d)"
proof (cases cache)
  case Missing
  with assms show ?thesis
    by (simp add: plan_def remap_closed_form)
next
  case Unparsable
  then show ?thesis by simp
next
  case (Json oldData)
  have keys: "Object_keys (newData_of files') = Object_keys (newData_of files)"
    by (simp only: Object_keys_newData_of assms)
  have "map_option fileID (obj_get (newData_of files') pid)
      = map_option fileID (obj_get (newData_of files) pid)" for pid
    by (simp only: obj_get_newData_of fileID_desired assms)
  then have ch: "changed (newData_of files') oldData = changed (newData_of files) oldData"
    by (intro ext) (simp only: changed_by_fileID)
  from diff_closed_form [of files oldData] diff_closed_form [of files' oldData]
  show ?thesis
    unfolding Json plan_def keys ch by auto
qed

theorem required_flag_not_diffed_witness:
  "map projectID [entry 3 30 False, entry 1 10 False, entry 5 50 True]
     = map projectID [entry 3 30 True, entry 1 10 True, entry 5 50 False] \<and>
   map fileID [entry 3 30 False, entry 1 10 False, entry 5 50 True]
     = map fileID [entry 3 30 True, entry 1 10 True, entry 5 50 False] \<and>
   cache_json world1 \<noteq> Unparsable \<and>
   (\<exists>d d'. plan [entry 3 30 True, entry 1 10 True, entry 5 50 False] (cache_json world1) = Inr d \<and>
      plan [entry 3 30 False, entry 1 10 False, entry 5 50 True] (cache_json world1) = Inr d' \<and>
      removed d' = removed d \<and> mIdToDownload d' = mIdToDownload d \<and>
      removed d = [(2, ''b.jar''), (3, ''c.jar'')] \<and> mIdToDownload d = [5, 3])"
proof -
  let ?files = "[entry 3 30 True, entry 1 10 True, entry 5 50 False]"
  let ?files' = "[entry 3 30 False, entry 1 10 False, entry 5 50 True]"
  have h: "map projectID ?files' = map projectID ?files" "map fileID ?files' = map fileID ?files"
    by (simp_all add: entry_def)
  have c: "cache_json world1 \<noteq> Unparsable"
    by (simp add: world1_def)
  have v: "map_sum (\<lambda>x. ()) (\<lambda>d. (removed d, mIdToDownload d)) (plan ?files (cache_json world1))
      = Inr ([(2, ''b.jar''), (3, ''c.jar'')], [5, 3])"
    by code_simp
  from required_flag_not_diffed [OF h, of "cache_json world1"] c
  obtain d d' where d: "plan ?files (cache_json world1) = Inr d"
      "plan ?files' (cache_json world1) = Inr d'"
      "removed d' = removed d" "mIdToDownload d' = mIdToDownload d"
    by blast
  from v d(1) have "removed d = [(2, ''b.jar''), (3, ''c.jar'')]" "mIdToDownload d = [5, 3]"
    by simp_all
  with h c d show ?thesis
    by blast
qed

subsection \<open>C9: what a run leaves alone for an unchanged mod\<close>

text \<open>
  Claim C9 says that the cached file of an unchanged artifact stays in place. When the
  previous record has mods 1 and 2 both naming \<open>shared.jar\<close> and the manifest keeps
  only mod 1 at the same file id, the run deletes \<open>shared.jar\<close> on behalf of mod 2:
  mod 1 is unchanged, its record is persisted as it was, and its file is gone.
\<close>

theorem unchanged_file_stays_counterexample:
  "manifest_json world4 = Json [entry 1 10 True] \<and>
   cache_json world4
     = Json [(1, cached 10 True ''shared.jar''), (2, cached 20 True ''shared.jar'')] \<and>
   modcache world4 ''shared.jar'' = Some 10 \<and>
   fst (DownloadModsTarget jar world4) = Inr () \<and>
   snd (snd (DownloadModsTarget jar world4))
     = [MkdirSync ''dist/modcache'', JukeRm ''dist/modcache/shared.jar'',
        WriteFileSync ''dist/cache.json'' [(1, cached 10 True ''shared.jar'')]] \<and>
   modcache (fst (snd (DownloadModsTarget jar world4))) ''shared.jar'' = None"
  by code_simp

text \<open>
  Claim C9, amended. For a project id in the previous record and in the manifest with
  the same file id, the run issues no deletion and no download for that id and, when it
  succeeds, persists the id's record unchanged; the file the record names is left as it
  was provided no deletion of the run names the same file and no download of the run
  returns that file name.
\<close>

theorem unchanged_artifact_untouched:
  assumes "manifest_json w = Json files" "cache_json w = Json oldData"
    and "obj_get oldData pid = Some od" "obj_get (newData_of files) pid = Some nd"
    and "fileID od = fileID nd"
    and "DownloadModsTarget DownloadCF w = (r, w', tr)"
  shows "\<exists>d. plan files (cache_json w) = Inr d \<and>
           pid \<notin> fst ` set (removed d) \<and> pid \<notin> set (mIdToDownload d) \<and>
           (\<forall>f dest. CallDownloadCF pid f dest \<notin> set tr) \<and>
           (r = Inr () \<longrightarrow> (\<exists>c. cache_json w' = Json c \<and> obj_get c pid = Some od)) \<and>
           (\<forall>name. file od = Some name \<and> name \<notin> snd ` set (removed d) \<and>
              (\<forall>k\<in>set (mIdToDownload d). \<forall>res.
                 fetched DownloadCF (dataKeys d) k = Some res \<longrightarrow> fst res \<noteq> name)
              \<longrightarrow> modcache w' name = modcache w name)"
proof -
  from unchanged_in_plan [OF assms(2-5)] obtain d
    where d: "plan files (cache_json w) = Inr d" "pid \<notin> fst ` set (removed d)"
      "pid \<notin> set (mIdToDownload d)" "obj_get (dataKeys d) pid = Some od"
    by blast
  note frame = run_frame [OF assms(1) d(1) assms(6)]
  have calls: "CallDownloadCF pid f dest \<notin> set tr" for f dest
    using frame d(3) by blast
  have kept: "\<exists>c. cache_json w' = Json c \<and> obj_get c pid = Some od" if "r = Inr ()"
  proof -
    from run_success [OF assms(1) d(1) assms(6) [unfolded that]] obtain c
      where "cache_json w' = Json c"
        "obj_get c pid = named (fetched DownloadCF (dataKeys d)) (dataKeys d) (mIdToDownload d) pid"
      by blast
    with d(3,4) show ?thesis
      by (simp add: named_def)
  qed
  have stays: "modcache w' name = modcache w name"
    if "file od = Some name \<and> name \<notin> snd ` set (removed d) \<and>
        (\<forall>k\<in>set (mIdToDownload d). \<forall>res.
           fetched DownloadCF (dataKeys d) k = Some res \<longrightarrow> fst res \<noteq> name)" for name
    using frame that by blast
  show ?thesis
    by (intro exI [of _ d] conjI allI impI) (use d calls kept stays in simp_all)
qed

theorem unchanged_artifact_untouched_witness:
  "manifest_json world1 = Json [entry 3 30 True, entry 1 10 True, entry 5 50 False] \<and>
   cache_json world1 = Json [(1, cached 10 False ''a.jar''), (2, cached 20 True ''b.jar''),
                             (3, cached 29 True ''c.jar'')] \<and>
   obj_get [(1, cached 10 False ''a.jar''), (2, cached 20 True ''b.jar''),
            (3, cached 29 True ''c.jar'')] 1 = Some (cached 10 False ''a.jar'') \<and>
   obj_get (newData_of [entry 3 30 True, entry 1 10 True, entry 5 50 False]) 1
     = Some \<lparr>fileID = 10, required = True\<rparr> \<and>
   fst (DownloadModsTarget jar world1) = Inr () \<and>
   file (cached 10 False ''a.jar'') = Some ''a.jar'' \<and>
   (\<exists>d. plan [entry 3 30 True, entry 1 10 True, entry 5 50 False] (cache_json world1) = Inr d \<and>
      removed d = [(2, ''b.jar''), (3, ''c.jar'')] \<and> mIdToDownload d = [5, 3] \<and>
      fetched jar (dataKeys d) 5 = Some (''mmmmm.jar'', 50) \<and>
      fetched jar (dataKeys d) 3 = Some (''mmm.jar'', 30)) \<and>
   (\<exists>c. cache_json (fst (snd (DownloadModsTarget jar world1))) = Json c \<and>
      obj_get c 1 = Some (cached 10 False ''a.jar'')) \<and>
   modcache (fst (snd (DownloadModsTarget jar world1))) ''a.jar'' = Some 10"
proof -
  let ?files = "[entry 3 30 True, entry 1 10 True, entry 5 50 False]"
  let ?old = "[(1, cached 10 False ''a.jar''), (2, cached 20 True ''b.jar''),
               (3, cached 29 True ''c.jar'')]"
  let ?D = "\<lparr>dataKeys = [(1, cached 10 False ''a.jar''),
                (3, \<lparr>fileID = 30, required = True, file = None\<rparr>),
                (5, \<lparr>fileID = 50, required = False, file = None\<rparr>)],
              mIdToDownload = [5, 3], removed = [(2, ''b.jar''), (3, ''c.jar'')]\<rparr>"
  have h: "manifest_json world1 = Json ?files" "cache_json world1 = Json ?old"
      "obj_get ?old 1 = Some (cached 10 False ''a.jar'')"
      "obj_get (newData_of ?files) 1 = Some \<lparr>fileID = 10, required = True\<rparr>"
      "fileID (cached 10 False ''a.jar'') = fileID \<lparr>fileID = 10, required = True\<rparr>"
    by code_simp+
  have ok: "fst (DownloadModsTarget jar world1) = Inr ()"
    by code_simp
  have run: "DownloadModsTarget jar world1
      = (fst (DownloadModsTarget jar world1), fst (snd (DownloadModsTarget jar world1)),
         snd (snd (DownloadModsTarget jar world1)))"
    by simp
  have D: "plan ?files (cache_json world1) = Inr ?D"
    by code_simp
  have got: "fetched jar (dataKeys ?D) 5 = Some (''mmmmm.jar'', 50)"
      "fetched jar (dataKeys ?D) 3 = Some (''mmm.jar'', 30)"
    by code_simp+
  have nm: "file (cached 10 False ''a.jar'') = Some ''a.jar''"
    by (simp add: cached_def)
  have before: "modcache world1 ''a.jar'' = Some 10"
    by (simp add: world1_def)
  from unchanged_artifact_untouched [OF h run] D
  have kept: "fst (DownloadModsTarget jar world1) = Inr () \<longrightarrow>
        (\<exists>c. cache_json (fst (snd (DownloadModsTarget jar world1))) = Json c \<and>
           obj_get c 1 = Some (cached 10 False ''a.jar''))"
    and stays: "file (cached 10 False ''a.jar'') = Some ''a.jar'' \<and> ''a.jar'' \<notin> snd ` set (removed ?D) \<and>
              (\<forall>k\<in>set (mIdToDownload ?D). \<forall>res.
                 fetched jar (dataKeys ?D) k = Some res \<longrightarrow> fst res \<noteq> ''a.jar'')
              \<longrightarrow> modcache (fst (snd (DownloadModsTarget jar world1))) ''a.jar'' = modcache world1 ''a.jar''"
    by auto
  from stays nm got before
  have "modcache (fst (snd (DownloadModsTarget jar world1))) ''a.jar'' = Some 10"
    by simp
  moreover from D got have "\<exists>d. plan ?files (cache_json world1) = Inr d \<and>
      removed d = [(2, ''b.jar''), (3, ''c.jar'')] \<and> mIdToDownload d = [5, 3] \<and>
      fetched jar (dataKeys d) 5 = Some (''mmmmm.jar'', 50) \<and>
      fetched jar (dataKeys d) 3 = Some (''mmm.jar'', 30)"
    by (intro exI [of _ ?D]) simp
  ultimately show ?thesis
    using h ok nm kept by simp
qed

subsection \<open>C10: the record of an unchanged mod is carried over\<close>

text \<open>
  Claim C10. When a project id is in the previous record and in the manifest with the
  same file id, a successful run persists the previous entry of that id as it was, file
  name and \<open>required\<close> flag included: the manifest's \<open>required\<close> is not copied into
  it.
\<close>

theorem unchanged_record_carried_over:
  assumes "manifest_json w = Json files" "cache_json w = Json oldData"
    and "obj_get oldData pid = Some od" "obj_get (newData_of files) pid = Some nd"
    and "fileID od = fileID nd"
    and "DownloadModsTarget DownloadCF w = (Inr u, w', tr)"
  shows "\<exists>c. cache_json w' = Json c \<and> obj_get c pid = Some od"
proof -
  from unchanged_in_plan [OF assms(2-5)] obtain d
    where d: "plan files (cache_json w) = Inr d" "pid \<notin> set (mIdToDownload d)"
      "obj_get (dataKeys d) pid = Some od"
    by blast
  from run_success [OF assms(1) d(1) assms(6)] obtain c
    where "cache_json w' = Json c"
      "obj_get c pid = named (fetched DownloadCF (dataKeys d)) (dataKeys d) (mIdToDownload d) pid"
    by blast
  with d(2,3) show ?thesis
    by (simp add: named_def)
qed

theorem unchanged_record_carried_over_witness:
  "manifest_json world1 = Json [entry 3 30 True, entry 1 10 True, entry 5 50 False] \<and>
   cache_json world1 = Json [(1, cached 10 False ''a.jar''), (2, cached 20 True ''b.jar''),
                             (3, cached 29 True ''c.jar'')] \<and>
   obj_get [(1, cached 10 False ''a.jar''), (2, cached 20 True ''b.jar''),
            (3, cached 29 True ''c.jar'')] 1 = Some (cached 10 False ''a.jar'') \<and>
   obj_get (newData_of [entry 3 30 True, entry 1 10 True, entry 5 50 False]) 1
     = Some \<lparr>fileID = 10, required = True\<rparr> \<and>
   fst (DownloadModsTarget jar world1) = Inr () \<and>
   (\<exists>c. cache_json (fst (snd (DownloadModsTarget jar world1))) = Json c \<and>
      obj_get c 1 = Some \<lparr>fileID = 10, required = False, file = Some ''a.jar''\<rparr>)"
proof -
  let ?files = "[entry 3 30 True, entry 1 10 True, entry 5 50 False]"
  let ?old = "[(1, cached 10 False ''a.jar''), (2, cached 20 True ''b.jar''),
               (3, cached 29 True ''c.jar'')]"
  have h: "manifest_json world1 = Json ?files" "cache_json world1 = Json ?old"
      "obj_get ?old 1 = Some (cached 10 False ''a.jar'')"
      "obj_get (newData_of ?files) 1 = Some \<lparr>fileID = 10, required = True\<rparr>"
      "fileID (cached 10 False ''a.jar'') = fileID \<lparr>fileID = 10, required = True\<rparr>"
    by code_simp+
  have ok: "fst (DownloadModsTarget jar world1) = Inr ()"
    by code_simp
  then have run: "DownloadModsTarget jar world1
      = (Inr (), fst (snd (DownloadModsTarget jar world1)), snd (snd (DownloadModsTarget jar world1)))"
    by (metis prod.collapse)
  from unchanged_record_carried_over [OF h run] h ok show ?thesis
    by (simp add: cached_def)
qed

end
